theory Spec2Isabelle
  imports Main
begin

section \<open>The delayed notification scheduler of notifications.go\<close>

text \<open>
  The scheduler is a concurrent Go program: one goroutine per call of
  \<^verbatim>\<open>AddNotification\<close> (the caller's goroutine), one goroutine per registered
  notification running \<^verbatim>\<open>monitorAndSend\<close>, one goroutine running the consumer loop
  \<^verbatim>\<open>monitorFunc\<close> returned by \<^verbatim>\<open>startSchedulingNotifications\<close>, and callers of
  \<^verbatim>\<open>RemoveNotification\<close>. It is modelled as an interleaving of atomic statements:
  every goroutine has a program counter naming the source line it executes next, and
  a schedule (a list of actions) says which goroutine moves. The step function is
  executable; a blocked statement is the value \<open>None\<close>.
\<close>

subsection \<open>Data\<close>

type_synonym addr = nat
type_synonym time = int

text \<open>
  \<^verbatim>\<open>messaging.Message\<close> and \<^verbatim>\<open>messaging.MulticastMessage\<close> belong to the Firebase
  library; the scheduler reads only \<^verbatim>\<open>Token\<close> and \<^verbatim>\<open>Tokens\<close> (for its log lines).
\<close>

record messaging_Message =
  Token :: string

record messaging_MulticastMessage =
  Tokens :: "string list"

text \<open>
  \<^verbatim>\<open>type ScheduledNotification struct\<close> (lines 16 to 22). The two payload pointers are
  options (\<open>None\<close> is \<^verbatim>\<open>nil\<close>); \<^verbatim>\<open>time.Time\<close> is an integer instant (nanoseconds),
  with \<^verbatim>\<open>After\<close> as \<open><\<close>. The field \<^verbatim>\<open>Id\<close> is written \<open>Id'\<close> because \<open>Id\<close> is the
  identity relation of HOL.
\<close>

record ScheduledNotification =
  Id' :: string
  Message :: "messaging_Message option"
  MulticastMessage :: "messaging_MulticastMessage option"
  ScheduledTime :: time
  CompletionStatus :: bool

text \<open>
  \<^verbatim>\<open>time.Duration\<close> is an \<^verbatim>\<open>int64\<close> count of nanoseconds, and \<^verbatim>\<open>Time.Sub\<close> of Go's
  library returns the difference of two instants as a \<^verbatim>\<open>Duration\<close>: when the difference
  does not fit, it returns the largest or the smallest \<^verbatim>\<open>Duration\<close> (about 292 years).
\<close>

definition maxDuration :: int where
  "maxDuration = 9223372036854775807"

definition minDuration :: int where
  "minDuration = - 9223372036854775808"

definition Sub :: "time \<Rightarrow> time \<Rightarrow> int" where
  "Sub t u =
     (if maxDuration < t - u then maxDuration
      else if t - u < minDuration then minDuration
      else t - u)"

text \<open>
  Who called \<^verbatim>\<open>RemoveNotification\<close>: the consumer loop (line 98), which goes back to
  its \<^verbatim>\<open>range\<close> afterwards, or an external caller, which returns.
\<close>

datatype caller = FromMonitor | FromCaller

text \<open>
  Program counters. The number in a name is the source line of notifications.go that
  the goroutine executes next; \<open>A\<close> is \<^verbatim>\<open>AddNotification\<close>, \<open>M\<close> is
  \<^verbatim>\<open>monitorAndSend\<close>, \<open>R\<close> is \<^verbatim>\<open>RemoveNotification\<close>, \<open>F\<close> is the consumer loop
  \<^verbatim>\<open>monitorFunc\<close>. \<open>A43\<close>, \<open>M61\<close> and \<open>R71\<close> are the deferred \<^verbatim>\<open>Unlock\<close> calls,
  which run when their function returns. \<open>M52_sleeping\<close> is inside \<^verbatim>\<open>time.Sleep\<close>
  (it carries the instant at which the sleep is over), \<open>F84\<close> and \<open>F90\<close> are inside the
  blocking calls \<^verbatim>\<open>Send\<close> and \<^verbatim>\<open>SendEachForMulticast\<close> of the messaging client.
\<close>

datatype pc =
    A39 "addr option"
  | A40 "addr option" string
  | A42 addr
  | A45 addr
  | A46 addr
  | A43
  | M50 addr
  | M51 addr time
  | M52 addr time
  | M52_sleeping addr time
  | M56 addr
  | M58 addr
  | M60 addr
  | M63 addr
  | M66 addr
  | M61
  | R70 string caller
  | R73 string caller
  | R71 caller
  | F80
  | F82 addr
  | F84 addr
  | F90 addr
  | F98 addr
  | Returned

text \<open>What the consumer loop does that is visible outside: log lines and client calls.\<close>

datatype event =
    Log_Sending addr
  | Call_Send addr messaging_Message
  | Call_SendEachForMulticast addr messaging_MulticastMessage
  | Log_Error_sending addr
  | Log_no_message_specified addr

text \<open>
  The shared state: the clock, the heap of notification records (a pointer is an index
  into it, and the registry stores pointers), the fields \<^verbatim>\<open>Notifs\<close> and \<^verbatim>\<open>mutex\<close> of
  \<^verbatim>\<open>NotificationScheduler\<close> (the mutex remembers its holder), the number of tokens in
  the buffered channel \<^verbatim>\<open>notificationSem\<close>, the goroutines, the trace of events with
  the instant of each, and whether the process has died of a panic. The channel
  \<^verbatim>\<open>Notifier\<close> is unbuffered and has no state: a send and a receive happen together.
  \<open>readings\<close> is a history variable, which the program does not have: the notification
  and the result of every \<^verbatim>\<open>time.Now()\<close> of line 50, so that a property can speak of
  the \<^verbatim>\<open>now\<close> of a waiter after the waiter has returned.
\<close>

record state =
  clock :: time
  heap :: "ScheduledNotification list"
  Notifs :: "string \<rightharpoonup> addr"
  mutex :: "nat option"
  notificationSem :: nat
  threads :: "pc list"
  trace :: "(time \<times> event) list"
  panicked :: bool
  readings :: "(addr \<times> time) list"

text \<open>\<^verbatim>\<open>var maxConcurrentNotifications = 3600\<close> (line 13), the capacity of the channel.\<close>

definition maxConcurrentNotifications :: nat where
  "maxConcurrentNotifications = 3600"

text \<open>
  The state in which requests are served: \<^verbatim>\<open>startSchedulingNotifications\<close> has made an
  empty registry (line 34) and the channel (line 77), and main.go has launched the
  returned loop once (\<^verbatim>\<open>go monitorNotifications()\<close>, main.go line 439), which is
  goroutine 0, waiting at its \<^verbatim>\<open>range\<close>.
\<close>

definition startSchedulingNotifications :: state where
  "startSchedulingNotifications =
     \<lparr>clock = 0, heap = [], Notifs = Map.empty, mutex = None, notificationSem = 0,
      threads = [F80], trace = [], panicked = False, readings = []\<rparr>"

text \<open>
  The record a caller builds for \<^verbatim>\<open>AddNotification\<close>: the struct literals of main.go
  (lines 292 and 835) set a payload and \<^verbatim>\<open>ScheduledTime\<close> and leave \<^verbatim>\<open>Id\<close> and
  \<^verbatim>\<open>CompletionStatus\<close> at Go's zero values.
\<close>

definition literal :: "messaging_Message option \<Rightarrow> messaging_MulticastMessage option \<Rightarrow> time
    \<Rightarrow> ScheduledNotification" where
  "literal m mm t =
     \<lparr>Id' = [], Message = m, MulticastMessage = mm, ScheduledTime = t, CompletionStatus = False\<rparr>"

subsection \<open>Atomic statements\<close>

definition goto :: "nat \<Rightarrow> pc \<Rightarrow> state \<Rightarrow> state" where
  "goto i l s = s\<lparr>threads := (threads s)[i := l]\<rparr>"

text \<open>\<^verbatim>\<open>n.mutex.Lock()\<close> blocks while the mutex is held.\<close>

definition Lock :: "nat \<Rightarrow> pc \<Rightarrow> state \<Rightarrow> state option" where
  "Lock i l s = (if mutex s = None then Some (goto i l (s\<lparr>mutex := Some i\<rparr>)) else None)"

definition Unlock :: "nat \<Rightarrow> pc \<Rightarrow> state \<Rightarrow> state option" where
  "Unlock i l s = Some (goto i l (s\<lparr>mutex := None\<rparr>))"

text \<open>
  One statement of goroutine \<open>i\<close>, which is at program counter \<open>l\<close>. Statements that
  need something from outside (\<open>A39\<close>, \<open>M58\<close>, \<open>F84\<close>, \<open>F90\<close>) and the blocked receive
  \<open>F80\<close> are not here: they move by the actions below. Line 50 also enters what
  \<^verbatim>\<open>time.Now()\<close> returned into the history \<open>readings\<close>. \<^verbatim>\<open>time.Sleep\<close> (line 52)
  returns at some instant not before the end of the duration it was given.
\<close>

fun exec :: "nat \<Rightarrow> pc \<Rightarrow> state \<Rightarrow> state option" where
  "exec i (A40 None ident) s = Some (s\<lparr>panicked := True\<rparr>)"
| "exec i (A40 (Some p) ident) s =
     Some (goto i (A42 p) (s\<lparr>heap := (heap s)[p := (heap s ! p)\<lparr>Id' := ident\<rparr>]\<rparr>))"
| "exec i (A42 p) s = Lock i (A45 p) s"
| "exec i (A45 p) s =
     Some (goto i (A46 p) (s\<lparr>Notifs := (Notifs s)(Id' (heap s ! p) \<mapsto> p)\<rparr>))"
| "exec i (A46 p) s = Some (s\<lparr>threads := (threads s)[i := A43] @ [M50 p]\<rparr>)"
| "exec i A43 s = Unlock i Returned s"
| "exec i (M50 p) s =
     Some (goto i (M51 p (clock s)) (s\<lparr>readings := readings s @ [(p, clock s)]\<rparr>))"
| "exec i (M51 p now) s =
     Some (goto i (if now < ScheduledTime (heap s ! p) then M52 p now else M56 p) s)"
| "exec i (M52 p now) s =
     Some (goto i (M52_sleeping p (clock s + Sub (ScheduledTime (heap s ! p)) now)) s)"
| "exec i (M52_sleeping p wake) s =
     (if wake \<le> clock s then Some (goto i (M56 p) s) else None)"
| "exec i (M56 p) s =
     (if notificationSem s < maxConcurrentNotifications
      then Some (goto i (M58 p) (s\<lparr>notificationSem := notificationSem s + 1\<rparr>))
      else None)"
| "exec i (M60 p) s = Lock i (M63 p) s"
| "exec i (M63 p) s =
     Some (goto i (M66 p) (s\<lparr>heap := (heap s)[p := (heap s ! p)\<lparr>CompletionStatus := True\<rparr>]\<rparr>))"
| "exec i (M66 p) s =
     (if 0 < notificationSem s
      then Some (goto i M61 (s\<lparr>notificationSem := notificationSem s - 1\<rparr>))
      else None)"
| "exec i M61 s = Unlock i Returned s"
| "exec i (R70 target c) s = Lock i (R73 target c) s"
| "exec i (R73 target c) s = Some (goto i (R71 c) (s\<lparr>Notifs := (Notifs s)(target := None)\<rparr>))"
| "exec i (R71 c) s = Unlock i (case c of FromMonitor \<Rightarrow> F80 | FromCaller \<Rightarrow> Returned) s"
| "exec i (F82 p) s =
     (case Message (heap s ! p) of
        Some m \<Rightarrow>
          Some (goto i (F84 p)
            (s\<lparr>trace := trace s @ [(clock s, Log_Sending p), (clock s, Call_Send p m)]\<rparr>))
      | None \<Rightarrow>
          (case MulticastMessage (heap s ! p) of
             Some mm \<Rightarrow>
               Some (goto i (F90 p)
                 (s\<lparr>trace := trace s @
                     [(clock s, Log_Sending p), (clock s, Call_SendEachForMulticast p mm)]\<rparr>))
           | None \<Rightarrow>
               Some (goto i (F98 p)
                 (s\<lparr>trace := trace s @ [(clock s, Log_no_message_specified p)]\<rparr>))))"
| "exec i (F98 p) s = Some (goto i (R70 (Id' (heap s ! p)) FromMonitor) s)"
| "exec i _ s = None"

text \<open>
  Line 39, \<^verbatim>\<open>id, _ := gonanoid.New()\<close>: the generator is outside the repository, so
  its result (a string and whether it failed) comes with the action; the error is
  dropped, as the blank identifier does.
\<close>

fun exec_nanoid :: "nat \<Rightarrow> string \<Rightarrow> bool \<Rightarrow> pc \<Rightarrow> state \<Rightarrow> state option" where
  "exec_nanoid i ident err (A39 notif) s = Some (goto i (A40 notif ident) s)"
| "exec_nanoid i ident err _ s = None"

text \<open>
  Line 58, \<^verbatim>\<open>n.Notifier <- notif\<close>, together with the receive of line 80: the sender
  \<open>i\<close> goes on to line 60 and the receiver \<open>d\<close>, which must be waiting at its
  \<^verbatim>\<open>range\<close>, to line 82 with the notification.
\<close>

fun exec_handoff :: "nat \<Rightarrow> nat \<Rightarrow> pc \<Rightarrow> state \<Rightarrow> state option" where
  "exec_handoff i d (M58 p) s =
     (if d < length (threads s) \<and> threads s ! d = F80
      then Some (goto d (F82 p) (goto i (M60 p) s)) else None)"
| "exec_handoff i d _ s = None"

text \<open>
  The return of the client call of line 84 or 90, with whether it returned an error:
  lines 85 to 87 and 91 to 93 log the error and do nothing else.
\<close>

fun exec_return :: "nat \<Rightarrow> bool \<Rightarrow> pc \<Rightarrow> state \<Rightarrow> state option" where
  "exec_return i err (F84 p) s =
     Some (goto i (F98 p)
       (s\<lparr>trace := trace s @ (if err then [(clock s, Log_Error_sending p)] else [])\<rparr>))"
| "exec_return i err (F90 p) s =
     Some (goto i (F98 p)
       (s\<lparr>trace := trace s @ (if err then [(clock s, Log_Error_sending p)] else [])\<rparr>))"
| "exec_return i err _ s = None"

subsection \<open>Schedules\<close>

text \<open>
  An action is a move of the environment (time passes, a caller allocates a record,
  calls \<^verbatim>\<open>AddNotification\<close> with a pointer, \<open>None\<close> being \<^verbatim>\<open>nil\<close>, or calls
  \<^verbatim>\<open>RemoveNotification\<close>) or one statement of a goroutine.
\<close>

datatype action =
    Tick nat
  | Alloc ScheduledNotification
  | CallAdd "addr option"
  | CallRemove string
  | Exec nat
  | Nanoid nat string bool
  | Handoff nat nat
  | ClientReturn nat bool

fun perform :: "action \<Rightarrow> state \<Rightarrow> state option" where
  "perform (Tick d) s = Some (s\<lparr>clock := clock s + int d\<rparr>)"
| "perform (Alloc n) s = Some (s\<lparr>heap := heap s @ [n]\<rparr>)"
| "perform (CallAdd None) s = Some (s\<lparr>threads := threads s @ [A39 None]\<rparr>)"
| "perform (CallAdd (Some p)) s =
     (if p < length (heap s) then Some (s\<lparr>threads := threads s @ [A39 (Some p)]\<rparr>) else None)"
| "perform (CallRemove target) s = Some (s\<lparr>threads := threads s @ [R70 target FromCaller]\<rparr>)"
| "perform (Exec i) s = (if i < length (threads s) then exec i (threads s ! i) s else None)"
| "perform (Nanoid i ident err) s =
     (if i < length (threads s) then exec_nanoid i ident err (threads s ! i) s else None)"
| "perform (Handoff i d) s =
     (if i < length (threads s) then exec_handoff i d (threads s ! i) s else None)"
| "perform (ClientReturn i err) s =
     (if i < length (threads s) then exec_return i err (threads s ! i) s else None)"

text \<open>A panic ends the process: nothing moves afterwards.\<close>

definition step :: "action \<Rightarrow> state \<Rightarrow> state option" where
  "step a s = (if panicked s then None else perform a s)"

fun run :: "action list \<Rightarrow> state \<Rightarrow> state option" where
  "run [] s = Some s"
| "run (a # as) s = (case step a s of None \<Rightarrow> None | Some s' \<Rightarrow> run as s')"

subsection \<open>Predicates on program counters, and invariants\<close>

text \<open>
  A goroutine holds a slot of the gate from after its send on \<^verbatim>\<open>notificationSem\<close>
  (line 56) until its receive from it (line 66): program counters 58, 60, 63 and 66.
\<close>

fun holds_slot :: "pc \<Rightarrow> bool" where
  "holds_slot (M58 p) = True"
| "holds_slot (M60 p) = True"
| "holds_slot (M63 p) = True"
| "holds_slot (M66 p) = True"
| "holds_slot _ = False"

definition gate_inv :: "state \<Rightarrow> bool" where
  "gate_inv s \<longleftrightarrow>
     length (filter holds_slot (threads s)) = notificationSem s \<and>
     notificationSem s \<le> maxConcurrentNotifications"

text \<open>
  A goroutine is inside a critical section of \<^verbatim>\<open>n.mutex\<close> from after its \<^verbatim>\<open>Lock\<close>
  until its deferred \<^verbatim>\<open>Unlock\<close> has run.
\<close>

fun critical :: "pc \<Rightarrow> bool" where
  "critical (A45 p) = True"
| "critical (A46 p) = True"
| "critical A43 = True"
| "critical (M63 p) = True"
| "critical (M66 p) = True"
| "critical M61 = True"
| "critical (R73 target c) = True"
| "critical (R71 c) = True"
| "critical _ = False"

definition mutex_inv :: "state \<Rightarrow> bool" where
  "mutex_inv s \<longleftrightarrow>
     (\<forall>i<length (threads s). critical (threads s ! i) = (mutex s = Some i)) \<and>
     (\<forall>t. mutex s = Some t \<longrightarrow> t < length (threads s))"

text \<open>
  The program counters of the consumer loop, including its call of
  \<^verbatim>\<open>RemoveNotification\<close>, and those at which it is inside a call of the client.
\<close>

fun monitor_pc :: "pc \<Rightarrow> bool" where
  "monitor_pc F80 = True"
| "monitor_pc (F82 p) = True"
| "monitor_pc (F84 p) = True"
| "monitor_pc (F90 p) = True"
| "monitor_pc (F98 p) = True"
| "monitor_pc (R70 target FromMonitor) = True"
| "monitor_pc (R73 target FromMonitor) = True"
| "monitor_pc (R71 FromMonitor) = True"
| "monitor_pc _ = False"

fun in_client_call :: "pc \<Rightarrow> bool" where
  "in_client_call (F84 p) = True"
| "in_client_call (F90 p) = True"
| "in_client_call _ = False"

definition monitor_inv :: "state \<Rightarrow> bool" where
  "monitor_inv s \<longleftrightarrow>
     threads s \<noteq> [] \<and> (\<forall>i<length (threads s). monitor_pc (threads s ! i) = (i = 0))"

text \<open>
  Notification \<open>p\<close> is due by instant \<open>t\<close>: a waiter of \<open>p\<close> has read the clock, at an
  instant \<open>now\<close> not after \<open>t\<close>, and \<open>t\<close> is not before the scheduled time or not
  before \<open>now\<close> plus the largest \<^verbatim>\<open>Duration\<close>, whichever comes first.
\<close>

definition due_by :: "state \<Rightarrow> addr \<Rightarrow> time \<Rightarrow> bool" where
  "due_by s p t \<longleftrightarrow>
     p < length (heap s) \<and>
     (\<exists>r\<in>set (readings s). fst r = p \<and> snd r \<le> t \<and>
        min (ScheduledTime (heap s ! p)) (snd r + maxDuration) \<le> t)"

text \<open>
  What each program counter knows about its notification and the clock: the pointer is
  allocated; \<^verbatim>\<open>now\<close> was read from the clock by this waiter; a waiter sleeps only
  when the scheduled time is after \<^verbatim>\<open>now\<close>; the notification is due by the end of the
  sleep, and past the sleep it is due.
\<close>

fun pc_ok :: "state \<Rightarrow> pc \<Rightarrow> bool" where
  "pc_ok s (A39 notif) = (case notif of None \<Rightarrow> True | Some p \<Rightarrow> p < length (heap s))"
| "pc_ok s (A40 notif ident) = (case notif of None \<Rightarrow> True | Some p \<Rightarrow> p < length (heap s))"
| "pc_ok s (A42 p) = (p < length (heap s))"
| "pc_ok s (A45 p) = (p < length (heap s))"
| "pc_ok s (A46 p) = (p < length (heap s))"
| "pc_ok s (M50 p) = (p < length (heap s))"
| "pc_ok s (M51 p now) =
     (p < length (heap s) \<and> now \<le> clock s \<and> (p, now) \<in> set (readings s))"
| "pc_ok s (M52 p now) =
     (p < length (heap s) \<and> now \<le> clock s \<and> (p, now) \<in> set (readings s) \<and>
      now < ScheduledTime (heap s ! p))"
| "pc_ok s (M52_sleeping p wake) = due_by s p wake"
| "pc_ok s (M56 p) = due_by s p (clock s)"
| "pc_ok s (M58 p) = due_by s p (clock s)"
| "pc_ok s (M60 p) = (p < length (heap s))"
| "pc_ok s (M63 p) = (p < length (heap s))"
| "pc_ok s (M66 p) = (p < length (heap s))"
| "pc_ok s (F82 p) = due_by s p (clock s)"
| "pc_ok s (F84 p) = (p < length (heap s))"
| "pc_ok s (F90 p) = (p < length (heap s))"
| "pc_ok s (F98 p) = (p < length (heap s))"
| "pc_ok s _ = True"

text \<open>The notification a client call delivers, for the two events that are client calls.\<close>

fun delivered :: "event \<Rightarrow> addr option" where
  "delivered (Call_Send p m) = Some p"
| "delivered (Call_SendEachForMulticast p mm) = Some p"
| "delivered _ = None"

definition event_ok :: "state \<Rightarrow> time \<times> event \<Rightarrow> bool" where
  "event_ok s x =
     (case delivered (snd x) of
        None \<Rightarrow> True
      | Some p \<Rightarrow> due_by s p (fst x))"

definition time_inv :: "state \<Rightarrow> bool" where
  "time_inv s \<longleftrightarrow>
     (\<forall>i<length (threads s). pc_ok s (threads s ! i)) \<and> (\<forall>x\<in>set (trace s). event_ok s x)"

text \<open>
  Later states: the clock does not go back, records stay where they are, their
  \<^verbatim>\<open>ScheduledTime\<close> is never written, and no reading is forgotten.
\<close>

definition extends :: "state \<Rightarrow> state \<Rightarrow> bool" where
  "extends s s' \<longleftrightarrow>
     clock s \<le> clock s' \<and> length (heap s) \<le> length (heap s') \<and>
     (\<forall>p<length (heap s). ScheduledTime (heap s' ! p) = ScheduledTime (heap s ! p)) \<and>
     set (readings s) \<subseteq> set (readings s')"

text \<open>
  Whoever is about to start the waiter of a notification (\<^verbatim>\<open>go\<close>, line 46) finds the
  notification in the registry.
\<close>

definition reg_inv :: "state \<Rightarrow> bool" where
  "reg_inv s \<longleftrightarrow> (\<forall>i<length (threads s). \<forall>p. threads s ! i = A46 p \<longrightarrow> p \<in> ran (Notifs s))"

subsection \<open>One function from call to return\<close>

text \<open>
  The schedules in which one goroutine runs a function of notifications.go and nothing
  else moves. \<^verbatim>\<open>AddNotification\<close> called with pointer \<open>p\<close> by a new goroutine \<open>i\<close>:
  the call, line 39 (with the generator's result), lines 40, 42 and 45; then the \<^verbatim>\<open>go\<close>
  statement (line 46) and the deferred \<^verbatim>\<open>Unlock\<close> (line 43).
\<close>

definition AddNotification_register :: "nat \<Rightarrow> addr \<Rightarrow> string \<Rightarrow> bool \<Rightarrow> action list" where
  "AddNotification_register i p ident err =
     [CallAdd (Some p), Nanoid i ident err, Exec i, Exec i, Exec i]"

definition AddNotification_finish :: "nat \<Rightarrow> action list" where
  "AddNotification_finish i = [Exec i, Exec i]"

definition AddNotification_schedule :: "nat \<Rightarrow> addr \<Rightarrow> string \<Rightarrow> bool \<Rightarrow> action list" where
  "AddNotification_schedule i p ident err =
     AddNotification_register i p ident err @ AddNotification_finish i"

text \<open>
  \<^verbatim>\<open>monitorAndSend\<close> run by goroutine \<open>w\<close> for a notification that is due: lines 50,
  51 and 56, the handoff of line 58 to the consumer loop \<open>d\<close>, lines 60, 63 and 66 and
  the deferred \<^verbatim>\<open>Unlock\<close>.
\<close>

definition monitorAndSend_schedule :: "nat \<Rightarrow> nat \<Rightarrow> action list" where
  "monitorAndSend_schedule w d =
     [Exec w, Exec w, Exec w, Handoff w d, Exec w, Exec w, Exec w, Exec w]"

text \<open>\<^verbatim>\<open>RemoveNotification\<close> called by a new goroutine \<open>i\<close>: lines 70, 73 and 71.\<close>

definition RemoveNotification_schedule :: "nat \<Rightarrow> string \<Rightarrow> action list" where
  "RemoveNotification_schedule i target = [CallRemove target, Exec i, Exec i, Exec i]"

text \<open>
  One iteration of the consumer loop \<open>d\<close> on the notification record \<open>n\<close>: line 82,
  the return of the client call when there is one (with whether it failed), line 98 and
  the three statements of \<^verbatim>\<open>RemoveNotification\<close>; and the log lines and client calls
  that lines 82 to 96 produce for \<open>n\<close> at instant \<open>t\<close>.
\<close>

definition monitorFunc_schedule :: "nat \<Rightarrow> ScheduledNotification \<Rightarrow> bool \<Rightarrow> action list" where
  "monitorFunc_schedule d n err =
     (if Message n = None \<and> MulticastMessage n = None then [Exec d]
      else [Exec d, ClientReturn d err]) @ [Exec d, Exec d, Exec d, Exec d]"

definition monitorFunc_events ::
    "time \<Rightarrow> addr \<Rightarrow> ScheduledNotification \<Rightarrow> bool \<Rightarrow> (time \<times> event) list" where
  "monitorFunc_events t p n err =
     (case Message n of
        Some m \<Rightarrow>
          [(t, Log_Sending p), (t, Call_Send p m)] @
          (if err then [(t, Log_Error_sending p)] else [])
      | None \<Rightarrow>
          (case MulticastMessage n of
             Some mm \<Rightarrow>
               [(t, Log_Sending p), (t, Call_SendEachForMulticast p mm)] @
               (if err then [(t, Log_Error_sending p)] else [])
           | None \<Rightarrow> [(t, Log_no_message_specified p)]))"

subsection \<open>Example runs\<close>

text \<open>
  One notification due at once: allocated, registered by goroutine 1 under the
  identifier \<open>''a''\<close>, and its waiter, goroutine 2, admitted to the gate.
\<close>

definition admitted_schedule :: "action list" where
  "admitted_schedule =
     [Alloc (literal (Some \<lparr>Token = ''t''\<rparr>) None 0), CallAdd (Some 0), Nanoid 1 ''a'' False,
      Exec 1, Exec 1, Exec 1, Exec 1, Exec 1, Exec 2, Exec 2, Exec 2]"

definition admitted_state :: state where
  "admitted_state =
     \<lparr>clock = 0,
      heap = [\<lparr>Id' = ''a'', Message = Some \<lparr>Token = ''t''\<rparr>, MulticastMessage = None,
               ScheduledTime = 0, CompletionStatus = False\<rparr>],
      Notifs = [''a'' \<mapsto> 0], mutex = None, notificationSem = 1,
      threads = [F80, Returned, M58 0], trace = [], panicked = False,
      readings = [(0, 0)]\<rparr>"

text \<open>
  One notification scheduled for instant 5 and registered at instant 0: its waiter
  sleeps, the clock reaches 7, the waiter is admitted and hands the notification to the
  consumer loop, which calls \<^verbatim>\<open>Send\<close>.
\<close>

definition delivered_schedule :: "action list" where
  "delivered_schedule =
     [Alloc (literal (Some \<lparr>Token = ''t''\<rparr>) None 5), CallAdd (Some 0), Nanoid 1 ''a'' False,
      Exec 1, Exec 1, Exec 1, Exec 1, Exec 1, Exec 2, Exec 2, Exec 2, Tick 7, Exec 2, Exec 2,
      Handoff 2 0, Exec 0]"

definition delivered_state :: state where
  "delivered_state =
     \<lparr>clock = 7,
      heap = [\<lparr>Id' = ''a'', Message = Some \<lparr>Token = ''t''\<rparr>, MulticastMessage = None,
               ScheduledTime = 5, CompletionStatus = False\<rparr>],
      Notifs = [''a'' \<mapsto> 0], mutex = None, notificationSem = 1,
      threads = [F84 0, Returned, M60 0],
      trace = [(7, Log_Sending 0), (7, Call_Send 0 \<lparr>Token = ''t''\<rparr>)], panicked = False,
      readings = [(0, 0)]\<rparr>"

text \<open>
  The same run one statement later: the waiter has taken the mutex (line 60) and is
  about to set \<^verbatim>\<open>CompletionStatus\<close> (line 63).
\<close>

definition marking_schedule :: "action list" where
  "marking_schedule = delivered_schedule @ [Exec 2]"

definition marking_state :: state where
  "marking_state = delivered_state\<lparr>mutex := Some 2, threads := [F84 0, Returned, M63 0]\<rparr>"

text \<open>
  And one statement and three nanoseconds later: the waiter has set
  \<^verbatim>\<open>CompletionStatus\<close> and has not yet released its slot (line 66).
\<close>

definition marked_schedule :: "action list" where
  "marked_schedule = marking_schedule @ [Exec 2, Tick 3]"

definition marked_state :: state where
  "marked_state =
     \<lparr>clock = 10,
      heap = [\<lparr>Id' = ''a'', Message = Some \<lparr>Token = ''t''\<rparr>, MulticastMessage = None,
               ScheduledTime = 5, CompletionStatus = True\<rparr>],
      Notifs = [''a'' \<mapsto> 0], mutex = Some 2, notificationSem = 1,
      threads = [F84 0, Returned, M66 0],
      trace = [(7, Log_Sending 0), (7, Call_Send 0 \<lparr>Token = ''t''\<rparr>)], panicked = False,
      readings = [(0, 0)]\<rparr>"

text \<open>
  A notification scheduled more than the largest \<^verbatim>\<open>Duration\<close> ahead, at instant
  \<open>2 ^ 63 + 4\<close>, and registered at instant 0: its waiter sleeps for the largest
  \<^verbatim>\<open>Duration\<close>, and when the clock is at \<open>2 ^ 63 - 1\<close> it is admitted and the consumer
  loop calls \<^verbatim>\<open>Send\<close>.
\<close>

definition far_schedule :: "action list" where
  "far_schedule =
     [Alloc (literal (Some \<lparr>Token = ''t''\<rparr>) None 9223372036854775812), CallAdd (Some 0),
      Nanoid 1 ''a'' False, Exec 1, Exec 1, Exec 1, Exec 1, Exec 1, Exec 2, Exec 2, Exec 2,
      Tick 9223372036854775807, Exec 2, Exec 2, Handoff 2 0, Exec 0]"

definition far_state :: state where
  "far_state =
     \<lparr>clock = 9223372036854775807,
      heap = [\<lparr>Id' = ''a'', Message = Some \<lparr>Token = ''t''\<rparr>, MulticastMessage = None,
               ScheduledTime = 9223372036854775812, CompletionStatus = False\<rparr>],
      Notifs = [''a'' \<mapsto> 0], mutex = None, notificationSem = 1,
      threads = [F84 0, Returned, M60 0],
      trace = [(9223372036854775807, Log_Sending 0),
               (9223372036854775807, Call_Send 0 \<lparr>Token = ''t''\<rparr>)],
      panicked = False, readings = [(0, 0)]\<rparr>"


text \<open>
  A record \<open>n\<close> that is due at instant 0, registered under \<open>ident\<close> and handed to the
  consumer loop, which is about to inspect it (line 82); a record with no payload and a
  record with both payloads.
\<close>

definition handoff_schedule :: "ScheduledNotification \<Rightarrow> string \<Rightarrow> action list" where
  "handoff_schedule n ident =
     [Alloc n, CallAdd (Some 0), Nanoid 1 ident False, Exec 1, Exec 1, Exec 1, Exec 1, Exec 1,
      Exec 2, Exec 2, Exec 2, Handoff 2 0]"

definition handed_state :: "ScheduledNotification \<Rightarrow> string \<Rightarrow> state" where
  "handed_state n ident =
     \<lparr>clock = 0, heap = [n\<lparr>Id' := ident\<rparr>], Notifs = [ident \<mapsto> 0], mutex = None,
      notificationSem = 1, threads = [F82 0, Returned, M60 0], trace = [], panicked = False,
      readings = [(0, 0)]\<rparr>"

definition no_payload :: ScheduledNotification where
  "no_payload = literal None None 0"

definition both_payloads :: ScheduledNotification where
  "both_payloads = literal (Some \<lparr>Token = ''t''\<rparr>) (Some \<lparr>Tokens = [''u'', ''v'']\<rparr>) 0"

text \<open>A record that comes with an \<^verbatim>\<open>Id\<close> of the caller's, allocated and not yet added.\<close>

definition supplied :: ScheduledNotification where
  "supplied = \<lparr>Id' = ''mine'', Message = Some \<lparr>Token = ''t''\<rparr>, MulticastMessage = None,
               ScheduledTime = 0, CompletionStatus = False\<rparr>"

definition supplied_state :: state where
  "supplied_state = startSchedulingNotifications\<lparr>heap := [supplied]\<rparr>"

text \<open>
  Two records added one after the other while the generator fails both times, so that
  both calls get the empty identifier.
\<close>

definition two_adds_first :: "action list" where
  "two_adds_first =
     [Alloc (literal (Some \<lparr>Token = ''t1''\<rparr>) None 10),
      Alloc (literal (Some \<lparr>Token = ''t2''\<rparr>) None 10)] @
     AddNotification_schedule 1 0 [] True"

definition two_adds_second :: "action list" where
  "two_adds_second = AddNotification_schedule 3 1 [] True"

definition first_added_state :: state where
  "first_added_state =
     \<lparr>clock = 0,
      heap = [literal (Some \<lparr>Token = ''t1''\<rparr>) None 10, literal (Some \<lparr>Token = ''t2''\<rparr>) None 10],
      Notifs = [[] \<mapsto> 0], mutex = None, notificationSem = 0,
      threads = [F80, Returned, M50 0], trace = [], panicked = False, readings = []\<rparr>"

definition second_added_state :: state where
  "second_added_state =
     first_added_state\<lparr>Notifs := [[] \<mapsto> 1], threads := [F80, Returned, M50 0, Returned, M50 1]\<rparr>"

section \<open>Properties\<close>

subsection \<open>Lists and runs\<close>

lemma count_update:
  "i < length xs \<Longrightarrow>
   length (filter P (xs[i := y])) + (if P (xs ! i) then 1 else 0) =
   length (filter P xs) + (if P y then 1 else 0)"
proof -
  assume i: "i < length xs"
  have a: "xs = take i xs @ xs ! i # drop (Suc i) xs"
    using i by (rule id_take_nth_drop)
  have b: "xs[i := y] = take i xs @ y # drop (Suc i) xs"
    using i by (rule upd_conv_take_nth_drop)
  have "length (filter P xs) =
      length (filter P (take i xs)) + (if P (xs ! i) then 1 else 0) +
      length (filter P (drop (Suc i) xs))"
    by (subst a) simp
  moreover have "length (filter P (xs[i := y])) =
      length (filter P (take i xs)) + (if P y then 1 else 0) +
      length (filter P (drop (Suc i) xs))"
    by (subst b) simp
  ultimately show ?thesis by simp
qed

lemma count_update_rw:
  "i < length xs \<Longrightarrow>
   length (filter P (xs[i := y])) =
   length (filter P xs) + (if P y then 1 else 0) - (if P (xs ! i) then 1 else 0)"
  using count_update [of i xs P y] by (simp split: if_splits)

lemma filter_pos: "i < length xs \<Longrightarrow> P (xs ! i) \<Longrightarrow> 0 < length (filter P xs)"
  by (metis filter_empty_conv length_greater_0_conv nth_mem)

lemma only_first:
  assumes "\<forall>i<length xs. P (xs ! i) \<longrightarrow> i = 0"
  shows "length (filter P xs) \<le> 1"
proof (cases xs)
  case Nil
  then show ?thesis by simp
next
  case (Cons x ys)
  have "\<forall>y\<in>set ys. \<not> P y"
  proof
    fix y assume "y \<in> set ys"
    then obtain j where "j < length ys" "ys ! j = y" by (auto simp: in_set_conv_nth)
    with assms Cons show "\<not> P y" by (auto dest: spec [of _ "Suc j"])
  qed
  then have "filter P ys = []" by (simp add: filter_empty_conv)
  with Cons show ?thesis by simp
qed

lemma nth_update_any:
  "q < length xs \<Longrightarrow> xs[p := x] ! q = (if p = q then x else xs ! q)"
  by (cases "p = q") simp_all

lemma removed_from_ran:
  assumes "\<forall>k. m k = Some p \<longrightarrow> k = a"
  shows "p \<notin> ran (m(a := None))"
  using assms by (auto simp: ran_def)

lemma goto_simps [simp]:
  "clock (goto i l s) = clock s"
  "heap (goto i l s) = heap s"
  "Notifs (goto i l s) = Notifs s"
  "mutex (goto i l s) = mutex s"
  "notificationSem (goto i l s) = notificationSem s"
  "threads (goto i l s) = (threads s)[i := l]"
  "trace (goto i l s) = trace s"
  "panicked (goto i l s) = panicked s"
  "readings (goto i l s) = readings s"
  by (simp_all add: goto_def)

lemma run_invariant:
  assumes "P s0" and "\<And>a s s'. P s \<Longrightarrow> step a s = Some s' \<Longrightarrow> P s'"
    and "run as s0 = Some s"
  shows "P s"
  using assms(1,3)
proof (induction as arbitrary: s0)
  case Nil
  then show ?case by simp
next
  case (Cons a as)
  then show ?case by (auto split: option.splits intro: assms(2))
qed

lemma run_append:
  "run (as @ bs) s = (case run as s of None \<Rightarrow> None | Some s' \<Rightarrow> run bs s')"
  by (induction as arbitrary: s) (auto split: option.splits)

lemmas eval_simps =
  step_def goto_def Lock_def Unlock_def maxConcurrentNotifications_def
  startSchedulingNotifications_def literal_def Sub_def maxDuration_def minDuration_def

subsection \<open>The gate\<close>

lemma gate_inv_exec:
  assumes "gate_inv s" "i < length (threads s)" "exec i (threads s ! i) s = Some s'"
  shows "gate_inv s'"
  using assms
  by (cases "(i, threads s ! i, s)" rule: exec.cases)
     (auto simp: gate_inv_def Lock_def Unlock_def count_update_rw
           split: if_splits option.splits caller.splits)

lemma gate_inv_step:
  assumes "gate_inv s" "step a s = Some s'"
  shows "gate_inv s'"
proof (cases a)
  case (Exec i)
  with assms show ?thesis
    by (auto simp: step_def gate_inv_exec split: if_splits)
next
  case (Handoff i d)
  with assms show ?thesis
    by (cases "threads s ! i")
       (auto simp: step_def gate_inv_def count_update_rw nth_list_update split: if_splits)
next
  case (Nanoid i ident err)
  with assms show ?thesis
    by (cases "threads s ! i")
       (auto simp: step_def gate_inv_def count_update_rw split: if_splits)
next
  case (ClientReturn i err)
  with assms show ?thesis
    by (cases "threads s ! i")
       (auto simp: step_def gate_inv_def count_update_rw split: if_splits)
next
  case (CallAdd notif)
  with assms show ?thesis
    by (cases notif) (auto simp: step_def gate_inv_def split: if_splits)
qed (use assms in \<open>auto simp: step_def gate_inv_def split: if_splits\<close>)

lemma gate_inv_run:
  "run as startSchedulingNotifications = Some s \<Longrightarrow> gate_inv s"
  by (rule run_invariant [where P = gate_inv and ?s0.0 = startSchedulingNotifications])
     (auto simp: gate_inv_step, simp add: gate_inv_def startSchedulingNotifications_def)

subsection \<open>The mutex\<close>

lemma mutex_inv_exec:
  assumes "exec i l s = Some s'" "threads s ! i = l" "i < length (threads s)"
    "critical l = (mutex s = Some i)" "mutex_inv s"
  shows "mutex_inv s'"
  using assms
  by (cases "(i, l, s)" rule: exec.cases)
     (auto simp: mutex_inv_def Lock_def Unlock_def nth_list_update nth_append 
           split: if_splits option.splits caller.splits)

lemma mutex_inv_nanoid:
  assumes "exec_nanoid i ident err l s = Some s'" "threads s ! i = l" "i < length (threads s)"
    "critical l = (mutex s = Some i)" "mutex_inv s"
  shows "mutex_inv s'"
  using assms
  by (cases l) (auto simp: mutex_inv_def nth_list_update split: if_splits)

lemma mutex_inv_return:
  assumes "exec_return i err l s = Some s'" "threads s ! i = l" "i < length (threads s)"
    "critical l = (mutex s = Some i)" "mutex_inv s"
  shows "mutex_inv s'"
  using assms
  by (cases l) (auto simp: mutex_inv_def nth_list_update split: if_splits)

lemma mutex_inv_handoff:
  assumes "exec_handoff i d l s = Some s'" "threads s ! i = l" "i < length (threads s)"
    "critical l = (mutex s = Some i)" "threads s ! d = ld" "d < length (threads s) \<longrightarrow> critical ld = (mutex s = Some d)"
    "mutex_inv s"
  shows "mutex_inv s'"
  using assms
  by (cases l) (auto simp: mutex_inv_def nth_list_update split: if_splits)

lemma mutex_inv_step:
  assumes "mutex_inv s" "step a s = Some s'"
  shows "mutex_inv s'"
proof -
  have inst: "\<And>j. j < length (threads s) \<Longrightarrow> critical (threads s ! j) = (mutex s = Some j)"
    using assms(1) by (simp add: mutex_inv_def)
  show ?thesis
  proof (cases a)
    case (Exec i)
    with assms(2) have i: "i < length (threads s)" and e: "exec i (threads s ! i) s = Some s'"
      by (auto simp: step_def split: if_splits)
    show ?thesis by (rule mutex_inv_exec [OF e refl i inst [OF i] assms(1)])
  next
    case (Nanoid i ident err)
    with assms(2) have i: "i < length (threads s)"
      and e: "exec_nanoid i ident err (threads s ! i) s = Some s'"
      by (auto simp: step_def split: if_splits)
    show ?thesis by (rule mutex_inv_nanoid [OF e refl i inst [OF i] assms(1)])
  next
    case (ClientReturn i err)
    with assms(2) have i: "i < length (threads s)"
      and e: "exec_return i err (threads s ! i) s = Some s'"
      by (auto simp: step_def split: if_splits)
    show ?thesis by (rule mutex_inv_return [OF e refl i inst [OF i] assms(1)])
  next
    case (Handoff i d)
    with assms(2) have i: "i < length (threads s)"
      and e: "exec_handoff i d (threads s ! i) s = Some s'"
      by (auto simp: step_def split: if_splits)
    show ?thesis
      by (rule mutex_inv_handoff [OF e refl i inst [OF i] refl _ assms(1)]) (simp add: inst)
  next
    case (CallAdd notif)
    with assms show ?thesis
      by (cases notif) (auto simp: step_def mutex_inv_def nth_append split: if_splits)
  qed (use assms in \<open>auto simp: step_def mutex_inv_def nth_append split: if_splits\<close>)
qed

lemma mutex_inv_run:
  "run as startSchedulingNotifications = Some s \<Longrightarrow> mutex_inv s"
  by (rule run_invariant [where P = mutex_inv and ?s0.0 = startSchedulingNotifications])
     (auto simp: mutex_inv_step, simp add: mutex_inv_def startSchedulingNotifications_def)

lemma exec_critical:
  assumes "critical l" "0 < notificationSem s"
  shows "\<exists>s'. exec i l s = Some s'"
  using assms by (cases "(i, l, s)" rule: exec.cases) (simp_all add: Unlock_def)

lemma holder_not_blocked:
  assumes "mutex_inv s" "gate_inv s" "mutex s = Some i"
  shows "\<exists>s'. exec i (threads s ! i) s = Some s'"
proof -
  from assms(1,3) have i: "i < length (threads s)" and c: "critical (threads s ! i)"
    by (auto simp: mutex_inv_def)
  show ?thesis
  proof (cases "holds_slot (threads s ! i)")
    case True
    from filter_pos [OF i, of holds_slot] True
    have "0 < length (filter holds_slot (threads s))" by simp
    with assms(2) have "0 < notificationSem s" by (simp only: gate_inv_def)
    with c show ?thesis by (rule exec_critical)
  next
    case False
    with c show ?thesis
      by (cases "(i, threads s ! i, s)" rule: exec.cases) (simp_all add: Unlock_def)
  qed
qed

subsection \<open>The consumer loop\<close>

lemma monitor_pc_R [simp]:
  "monitor_pc (R70 target c) = (c = FromMonitor)"
  "monitor_pc (R73 target c) = (c = FromMonitor)"
  "monitor_pc (R71 c) = (c = FromMonitor)"
  by (cases c; simp)+

lemma monitor_inv_exec:
  assumes "exec i l s = Some s'" "threads s ! i = l" "i < length (threads s)"
    "monitor_pc l = (i = 0)" "monitor_inv s"
  shows "monitor_inv s'"
  using assms
  by (cases "(i, l, s)" rule: exec.cases)
     (auto simp: monitor_inv_def Lock_def Unlock_def nth_list_update nth_append 
           split: if_splits option.splits caller.splits)

lemma monitor_inv_nanoid:
  assumes "exec_nanoid i ident err l s = Some s'" "threads s ! i = l" "i < length (threads s)"
    "monitor_pc l = (i = 0)" "monitor_inv s"
  shows "monitor_inv s'"
  using assms
  by (cases l) (auto simp: monitor_inv_def nth_list_update split: if_splits)

lemma monitor_inv_return:
  assumes "exec_return i err l s = Some s'" "threads s ! i = l" "i < length (threads s)"
    "monitor_pc l = (i = 0)" "monitor_inv s"
  shows "monitor_inv s'"
  using assms
  by (cases l) (auto simp: monitor_inv_def nth_list_update split: if_splits)

lemma monitor_inv_handoff:
  assumes "exec_handoff i d l s = Some s'" "threads s ! i = l" "i < length (threads s)"
    "monitor_pc l = (i = 0)" "threads s ! d = ld" "d < length (threads s) \<longrightarrow> monitor_pc ld = (d = 0)"
    "monitor_inv s"
  shows "monitor_inv s'"
  using assms
  by (cases l) (auto simp: monitor_inv_def nth_list_update split: if_splits)

lemma monitor_inv_step:
  assumes "monitor_inv s" "step a s = Some s'"
  shows "monitor_inv s'"
proof -
  have inst: "\<And>j. j < length (threads s) \<Longrightarrow> monitor_pc (threads s ! j) = (j = 0)"
    using assms(1) by (simp add: monitor_inv_def)
  show ?thesis
  proof (cases a)
    case (Exec i)
    with assms(2) have i: "i < length (threads s)" and e: "exec i (threads s ! i) s = Some s'"
      by (auto simp: step_def split: if_splits)
    show ?thesis by (rule monitor_inv_exec [OF e refl i inst [OF i] assms(1)])
  next
    case (Nanoid i ident err)
    with assms(2) have i: "i < length (threads s)"
      and e: "exec_nanoid i ident err (threads s ! i) s = Some s'"
      by (auto simp: step_def split: if_splits)
    show ?thesis by (rule monitor_inv_nanoid [OF e refl i inst [OF i] assms(1)])
  next
    case (ClientReturn i err)
    with assms(2) have i: "i < length (threads s)"
      and e: "exec_return i err (threads s ! i) s = Some s'"
      by (auto simp: step_def split: if_splits)
    show ?thesis by (rule monitor_inv_return [OF e refl i inst [OF i] assms(1)])
  next
    case (Handoff i d)
    with assms(2) have i: "i < length (threads s)"
      and e: "exec_handoff i d (threads s ! i) s = Some s'"
      by (auto simp: step_def split: if_splits)
    show ?thesis
      by (rule monitor_inv_handoff [OF e refl i inst [OF i] refl _ assms(1)]) (simp add: inst)
  next
    case (CallAdd notif)
    with assms show ?thesis
      by (cases notif) (auto simp: step_def monitor_inv_def nth_append split: if_splits)
  qed (use assms in \<open>auto simp: step_def monitor_inv_def nth_append split: if_splits\<close>)
qed

lemma monitor_inv_run:
  "run as startSchedulingNotifications = Some s \<Longrightarrow> monitor_inv s"
  by (rule run_invariant [where P = monitor_inv and ?s0.0 = startSchedulingNotifications])
     (auto simp: monitor_inv_step, simp add: monitor_inv_def startSchedulingNotifications_def)

lemma exec_trace:
  assumes "exec i l s = Some s'" "trace s' \<noteq> trace s"
  shows "monitor_pc l"
  using assms
  by (cases "(i, l, s)" rule: exec.cases)
     (auto simp: Lock_def Unlock_def split: if_splits option.splits)

lemma step_trace:
  assumes "monitor_inv s" "step a s = Some s'" "trace s' \<noteq> trace s"
  shows "a = Exec 0 \<or> a = ClientReturn 0 True"
proof (cases a)
  case (Exec i)
  with assms(2) have i: "i < length (threads s)" and e: "exec i (threads s ! i) s = Some s'"
    by (auto simp: step_def split: if_splits)
  from exec_trace [OF e assms(3)] assms(1) i have "i = 0" by (simp add: monitor_inv_def)
  with Exec show ?thesis by simp
next
  case (ClientReturn i err)
  with assms(2) have i: "i < length (threads s)"
    and e: "exec_return i err (threads s ! i) s = Some s'"
    by (auto simp: step_def split: if_splits)
  from e assms(3) have "monitor_pc (threads s ! i) \<and> err"
    by (cases "threads s ! i") (auto split: if_splits)
  with assms(1) i have "i = 0 \<and> err" by (simp add: monitor_inv_def)
  with ClientReturn show ?thesis by simp
next
  case (Handoff i d)
  with assms(2,3) show ?thesis
    by (cases "threads s ! i") (auto simp: step_def split: if_splits)
next
  case (Nanoid i ident err)
  with assms(2,3) show ?thesis
    by (cases "threads s ! i") (auto simp: step_def split: if_splits)
next
  case (CallAdd notif)
  with assms(2,3) show ?thesis
    by (cases notif) (auto simp: step_def split: if_splits)
qed (use assms(2,3) in \<open>auto simp: step_def split: if_splits\<close>)

lemma step_Handoff:
  assumes "monitor_inv s" "step (Handoff i d) s = Some s'"
  shows "d = 0 \<and> threads s ! 0 = F80"
proof -
  from assms(2) have "d < length (threads s) \<and> threads s ! d = F80"
    by (cases "threads s ! i") (auto simp: step_def split: if_splits)
  with assms(1) show ?thesis by (auto simp: monitor_inv_def)
qed

subsection \<open>Time\<close>

lemma due_by_simps [simp]:
  "due_by (goto i l s) = due_by s"
  "due_by (s\<lparr>clock := c\<rparr>) = due_by s"
  "due_by (s\<lparr>Notifs := n\<rparr>) = due_by s"
  "due_by (s\<lparr>mutex := m\<rparr>) = due_by s"
  "due_by (s\<lparr>notificationSem := k\<rparr>) = due_by s"
  "due_by (s\<lparr>threads := ts\<rparr>) = due_by s"
  "due_by (s\<lparr>trace := tr\<rparr>) = due_by s"
  "due_by (s\<lparr>panicked := b\<rparr>) = due_by s"
  by (simp_all add: due_by_def fun_eq_iff)

lemma due_by_extends:
  assumes "due_by s p t" "extends s s'" "t \<le> t'"
  shows "due_by s' p t'"
proof -
  from assms(1) obtain r where p: "p < length (heap s)" and r: "r \<in> set (readings s)"
    "fst r = p" "snd r \<le> t" "min (ScheduledTime (heap s ! p)) (snd r + maxDuration) \<le> t"
    by (auto simp: due_by_def)
  from assms(2) p have "p < length (heap s')"
    "ScheduledTime (heap s' ! p) = ScheduledTime (heap s ! p)" "r \<in> set (readings s')"
    using r(1) by (auto simp: extends_def)
  with r assms(3) show ?thesis unfolding due_by_def by (intro conjI bexI [of _ r]) auto
qed

lemma due_by_later: "due_by s p t \<Longrightarrow> t \<le> t' \<Longrightarrow> due_by s p t'"
  using due_by_extends [of s p t s t'] by (simp add: extends_def)

lemma due_by_length: "due_by s p t \<Longrightarrow> p < length (heap s)"
  by (simp add: due_by_def)

lemma due_by_reading:
  assumes "p < length (heap s)" "(p, now) \<in> set (readings s)" "now \<le> t"
    "min (ScheduledTime (heap s ! p)) (now + maxDuration) \<le> t"
  shows "due_by s p t"
  unfolding due_by_def using assms by (intro conjI bexI [of _ "(p, now)"]) auto

lemma Sub_positive: "(0 < Sub t u) = (u < t)"
  by (simp add: Sub_def maxDuration_def minDuration_def)

lemma Sub_exact: "u < t \<Longrightarrow> t - u \<le> maxDuration \<Longrightarrow> Sub t u = t - u"
  by (simp add: Sub_def maxDuration_def minDuration_def)

lemma Sub_wake:
  assumes "now < st" "now \<le> c"
  shows "now \<le> c + Sub st now" "min st (now + maxDuration) \<le> c + Sub st now"
  using assms by (simp_all add: Sub_def maxDuration_def minDuration_def min_def)

lemma pc_ok_extends: "pc_ok s l \<Longrightarrow> extends s s' \<Longrightarrow> pc_ok s' l"
proof (cases "(s, l)" rule: pc_ok.cases)
qed (auto simp: extends_def split: option.splits
       intro: due_by_extends [where s = s and s' = s'])

lemma event_ok_extends: "event_ok s x \<Longrightarrow> extends s s' \<Longrightarrow> event_ok s' x"
  by (auto simp: event_ok_def split: option.splits intro: due_by_extends)


lemma time_inv_frame:
  assumes "time_inv s" "extends s s'"
    and "\<forall>j<length (threads s').
           (j < length (threads s) \<and> threads s' ! j = threads s ! j) \<or> pc_ok s' (threads s' ! j)"
    and "\<forall>x\<in>set (trace s'). x \<in> set (trace s) \<or> event_ok s' x"
  shows "time_inv s'"
  unfolding time_inv_def
proof (intro conjI allI impI ballI)
  fix j assume "j < length (threads s')"
  with assms(3) consider "j < length (threads s)" "threads s' ! j = threads s ! j"
    | "pc_ok s' (threads s' ! j)" by blast
  then show "pc_ok s' (threads s' ! j)"
  proof cases
    case 1
    with assms(1) have "pc_ok s (threads s ! j)" by (simp add: time_inv_def)
    with 1 assms(2) show ?thesis by (simp add: pc_ok_extends)
  qed
next
  fix x assume "x \<in> set (trace s')"
  with assms(4) have "x \<in> set (trace s) \<or> event_ok s' x" by blast
  then show "event_ok s' x"
    using assms(1,2) by (auto simp: time_inv_def intro: event_ok_extends)
qed

lemma due_by_readings_append [simp]:
  "due_by s p t \<Longrightarrow> due_by (s\<lparr>readings := readings s @ rs\<rparr>) p t"
  by (auto simp: due_by_def)

lemma time_inv_exec:
  assumes "exec i l s = Some s'" "threads s ! i = l" "i < length (threads s)" "pc_ok s l"
  shows "extends s s' \<and>
     (\<forall>j<length (threads s').
        (j < length (threads s) \<and> threads s' ! j = threads s ! j) \<or> pc_ok s' (threads s' ! j)) \<and>
     (\<forall>x\<in>set (trace s'). x \<in> set (trace s) \<or> event_ok s' x)"
proof (cases "(i, l, s)" rule: exec.cases)
  case (8 i' p now s0)
  have "due_by s p (clock s)" if "\<not> now < ScheduledTime (heap s ! p)"
    using that assms(4) 8 by (intro due_by_reading [of p s now]) auto
  with 8 assms show ?thesis
    by (auto simp: extends_def event_ok_def nth_list_update)
next
  case (9 i' p now s0)
  have "due_by s p (clock s + Sub (ScheduledTime (heap s ! p)) now)"
    using assms(4) 9 Sub_wake [of now "ScheduledTime (heap s ! p)" "clock s"]
    by (intro due_by_reading [of p s now]) auto
  with 9 assms show ?thesis
    by (auto simp: extends_def event_ok_def nth_list_update)
next
  case (10 i' p wake s0)
  from 10 assms(1) have w: "wake \<le> clock s" and s': "s' = goto i (M56 p) s"
    by (auto split: if_splits)
  from 10 assms(4) have "due_by s p wake" by simp
  from this w have d: "due_by s p (clock s)" by (rule due_by_later)
  show ?thesis
    unfolding s' using d assms(3) by (auto simp: extends_def nth_list_update)
qed (use assms in \<open>auto simp: extends_def event_ok_def Lock_def Unlock_def nth_list_update
           nth_append nth_update_any
           split: if_splits option.splits caller.splits
           dest: due_by_length\<close>)

lemma time_inv_nanoid:
  assumes "exec_nanoid i ident err l s = Some s'" "threads s ! i = l" "i < length (threads s)"
    "pc_ok s l"
  shows "extends s s' \<and>
     (\<forall>j<length (threads s').
        (j < length (threads s) \<and> threads s' ! j = threads s ! j) \<or> pc_ok s' (threads s' ! j)) \<and>
     (\<forall>x\<in>set (trace s'). x \<in> set (trace s) \<or> event_ok s' x)"
  using assms
  by (cases "(i, ident, err, l, s)" rule: exec_nanoid.cases)
     (auto simp: extends_def event_ok_def nth_list_update split: if_splits option.splits)

lemma time_inv_return:
  assumes "exec_return i err l s = Some s'" "threads s ! i = l" "i < length (threads s)"
    "pc_ok s l"
  shows "extends s s' \<and>
     (\<forall>j<length (threads s').
        (j < length (threads s) \<and> threads s' ! j = threads s ! j) \<or> pc_ok s' (threads s' ! j)) \<and>
     (\<forall>x\<in>set (trace s'). x \<in> set (trace s) \<or> event_ok s' x)"
  using assms
  by (cases l) (auto simp: extends_def event_ok_def nth_list_update split: if_splits)

lemma time_inv_handoff:
  assumes "exec_handoff i d l s = Some s'" "threads s ! i = l" "i < length (threads s)"
    "pc_ok s l"
  shows "extends s s' \<and>
     (\<forall>j<length (threads s').
        (j < length (threads s) \<and> threads s' ! j = threads s ! j) \<or> pc_ok s' (threads s' ! j)) \<and>
     (\<forall>x\<in>set (trace s'). x \<in> set (trace s) \<or> event_ok s' x)"
  using assms
  by (cases l)
     (auto simp: extends_def event_ok_def nth_list_update split: if_splits dest: due_by_length)

lemma time_inv_step:
  assumes "time_inv s" "step a s = Some s'"
  shows "time_inv s'"
proof -
  have inst: "\<And>j. j < length (threads s) \<Longrightarrow> pc_ok s (threads s ! j)"
    using assms(1) by (simp add: time_inv_def)
  have "extends s s' \<and>
     (\<forall>j<length (threads s').
        (j < length (threads s) \<and> threads s' ! j = threads s ! j) \<or> pc_ok s' (threads s' ! j)) \<and>
     (\<forall>x\<in>set (trace s'). x \<in> set (trace s) \<or> event_ok s' x)"
  proof (cases a)
    case (Exec i)
    with assms(2) have i: "i < length (threads s)" and e: "exec i (threads s ! i) s = Some s'"
      by (auto simp: step_def split: if_splits)
    show ?thesis by (rule time_inv_exec [OF e refl i inst [OF i]])
  next
    case (Nanoid i ident err)
    with assms(2) have i: "i < length (threads s)"
      and e: "exec_nanoid i ident err (threads s ! i) s = Some s'"
      by (auto simp: step_def split: if_splits)
    show ?thesis by (rule time_inv_nanoid [OF e refl i inst [OF i]])
  next
    case (ClientReturn i err)
    with assms(2) have i: "i < length (threads s)"
      and e: "exec_return i err (threads s ! i) s = Some s'"
      by (auto simp: step_def split: if_splits)
    show ?thesis by (rule time_inv_return [OF e refl i inst [OF i]])
  next
    case (Handoff i d)
    with assms(2) have i: "i < length (threads s)"
      and e: "exec_handoff i d (threads s ! i) s = Some s'"
      by (auto simp: step_def split: if_splits)
    show ?thesis by (rule time_inv_handoff [OF e refl i inst [OF i]])
  next
    case (CallAdd notif)
    with assms(2) show ?thesis
      by (cases notif) (auto simp: step_def extends_def event_ok_def nth_append split: if_splits)
  qed (use assms(2) in \<open>auto simp: step_def extends_def event_ok_def nth_append split: if_splits\<close>)
  with assms(1) show ?thesis by (blast intro: time_inv_frame)
qed

lemma time_inv_run:
  "run as startSchedulingNotifications = Some s \<Longrightarrow> time_inv s"
  by (rule run_invariant [where P = time_inv and ?s0.0 = startSchedulingNotifications])
     (auto simp: time_inv_step, simp add: time_inv_def startSchedulingNotifications_def)

lemma due_by_on_time:
  assumes "due_by s p t"
  shows "\<exists>r\<in>set (readings s). fst r = p \<and> snd r \<le> t \<and>
           min (ScheduledTime (heap s ! p)) (snd r + maxDuration) \<le> t \<and>
           (ScheduledTime (heap s ! p) - snd r \<le> maxDuration \<longrightarrow>
              ScheduledTime (heap s ! p) \<le> t)"
proof -
  from assms obtain r where r: "r \<in> set (readings s)" "fst r = p" "snd r \<le> t"
    "min (ScheduledTime (heap s ! p)) (snd r + maxDuration) \<le> t"
    by (auto simp: due_by_def)
  then have "ScheduledTime (heap s ! p) - snd r \<le> maxDuration \<longrightarrow>
      ScheduledTime (heap s ! p) \<le> t" by (simp add: min_def split: if_splits)
  with r show ?thesis by blast
qed

subsection \<open>The registry entry precedes the waiter\<close>

lemma exec_others:
  assumes "exec i l s = Some s'" "i < length (threads s)" "j \<noteq> i" "j < length (threads s')"
  shows "(j < length (threads s) \<and> threads s' ! j = threads s ! j) \<or> \<not> critical (threads s' ! j)"
  using assms
  by (cases "(i, l, s)" rule: exec.cases)
     (auto simp: Lock_def Unlock_def nth_append split: if_splits option.splits)

lemma exec_Notifs:
  assumes "exec i l s = Some s'" "\<not> critical l"
  shows "Notifs s' = Notifs s"
  using assms
  by (cases "(i, l, s)" rule: exec.cases)
     (auto simp: Lock_def Unlock_def split: if_splits option.splits)

lemma exec_A46:
  assumes "exec i l s = Some s'" "threads s ! i = l" "i < length (threads s)"
    "threads s' ! i = A46 p"
  shows "Notifs s' (Id' (heap s ! p)) = Some p"
  using assms
  by (cases "(i, l, s)" rule: exec.cases)
     (auto simp: Lock_def Unlock_def nth_append split: if_splits option.splits caller.splits)

lemma reg_inv_exec:
  assumes e: "exec i l s = Some s'" and l: "threads s ! i = l" and i: "i < length (threads s)"
    and m: "mutex_inv s" and r: "reg_inv s"
  shows "reg_inv s'"
  unfolding reg_inv_def
proof (intro allI impI)
  fix j p assume j: "j < length (threads s')" and a: "threads s' ! j = A46 p"
  show "p \<in> ran (Notifs s')"
  proof (cases "j = i")
    case True
    with e l i a have "Notifs s' (Id' (heap s ! p)) = Some p" by (simp add: exec_A46)
    then show ?thesis by (rule ranI)
  next
    case False
    from exec_others [OF e i False j] a
    have j': "j < length (threads s)" and same: "threads s ! j = A46 p" by auto
    from m j' same have "mutex s = Some j" by (auto simp: mutex_inv_def)
    with m i False l have "\<not> critical l" by (auto simp: mutex_inv_def)
    with e have "Notifs s' = Notifs s" by (rule exec_Notifs)
    with r j' same show ?thesis by (simp add: reg_inv_def)
  qed
qed

lemma reg_inv_step:
  assumes "mutex_inv s" "reg_inv s" "step a s = Some s'"
  shows "reg_inv s'"
proof (cases a)
  case (Exec i)
  with assms(3) have i: "i < length (threads s)" and e: "exec i (threads s ! i) s = Some s'"
    by (auto simp: step_def split: if_splits)
  show ?thesis by (rule reg_inv_exec [OF e refl i assms(1,2)])
next
  case (Handoff i d)
  with assms(2,3) show ?thesis
    by (cases "threads s ! i")
       (auto simp: step_def reg_inv_def nth_list_update split: if_splits)
next
  case (Nanoid i ident err)
  with assms(2,3) show ?thesis
    by (cases "threads s ! i")
       (auto simp: step_def reg_inv_def nth_list_update split: if_splits)
next
  case (ClientReturn i err)
  with assms(2,3) show ?thesis
    by (cases "threads s ! i")
       (auto simp: step_def reg_inv_def nth_list_update split: if_splits)
next
  case (CallAdd notif)
  with assms(2,3) show ?thesis
    by (cases notif) (auto simp: step_def reg_inv_def nth_append split: if_splits)
qed (use assms(2,3) in \<open>auto simp: step_def reg_inv_def nth_append split: if_splits\<close>)

lemma reg_inv_run:
  assumes "run as startSchedulingNotifications = Some s"
  shows "reg_inv s"
proof -
  have "mutex_inv s \<and> reg_inv s"
    by (rule run_invariant [where P = "\<lambda>s. mutex_inv s \<and> reg_inv s", OF _ _ assms])
       (auto simp: mutex_inv_step reg_inv_step,
        simp_all add: mutex_inv_def reg_inv_def startSchedulingNotifications_def)
  then show ?thesis ..
qed

subsection \<open>The completion flag\<close>

lemma exec_CompletionStatus:
  assumes "exec i l s = Some s'" "threads s ! i = l" "i < length (threads s)"
    "q < length (heap s)"
    "CompletionStatus (heap s' ! q) \<noteq> CompletionStatus (heap s ! q)"
  shows "l = M63 q \<and> CompletionStatus (heap s' ! q) \<and> threads s' ! i = M66 q \<and>
         mutex s' = mutex s"
  using assms
  by (cases "(i, l, s)" rule: exec.cases)
     (auto simp: Lock_def Unlock_def nth_update_any split: if_splits option.splits)

lemma step_CompletionStatus:
  assumes "mutex_inv s" "step a s = Some s'" "q < length (heap s)"
    "CompletionStatus (heap s' ! q) \<noteq> CompletionStatus (heap s ! q)"
  shows "\<exists>i. a = Exec i \<and> threads s ! i = M63 q \<and> mutex s = Some i \<and>
           CompletionStatus (heap s' ! q) \<and> threads s' ! i = M66 q \<and> mutex s' = Some i"
proof (cases a)
  case (Exec i)
  with assms(2) have i: "i < length (threads s)" and e: "exec i (threads s ! i) s = Some s'"
    by (auto simp: step_def split: if_splits)
  from exec_CompletionStatus [OF e refl i assms(3,4)]
  have *: "threads s ! i = M63 q" "CompletionStatus (heap s' ! q)" "threads s' ! i = M66 q"
    "mutex s' = mutex s" by auto
  from assms(1) i * have "mutex s = Some i" by (auto simp: mutex_inv_def)
  with * Exec show ?thesis by simp
next
  case (Handoff i d)
  with assms(2,4) show ?thesis
    by (cases "threads s ! i") (auto simp: step_def split: if_splits)
next
  case (Nanoid i ident err)
  with assms(2,4) show ?thesis
    by (cases "threads s ! i") (auto simp: step_def split: if_splits)
next
  case (ClientReturn i err)
  with assms(2,4) show ?thesis
    by (cases "threads s ! i") (auto simp: step_def split: if_splits)
next
  case (CallAdd notif)
  with assms(2,4) show ?thesis
    by (cases notif) (auto simp: step_def split: if_splits)
qed (use assms(2,3,4) in \<open>auto simp: step_def nth_append split: if_splits\<close>)

subsection \<open>One function from call to return, without interference\<close>

lemma AddNotification_register_run:
  assumes "\<not> panicked s" "mutex s = None" "p < length (heap s)"
  shows "run (AddNotification_register (length (threads s)) p ident err) s =
     Some (s\<lparr>heap := (heap s)[p := (heap s ! p)\<lparr>Id' := ident\<rparr>],
             Notifs := (Notifs s)(ident \<mapsto> p),
             mutex := Some (length (threads s)),
             threads := threads s @ [A46 p]\<rparr>)"
  using assms
  by (simp add: AddNotification_register_def step_def Lock_def Unlock_def goto_def nth_append)

lemma AddNotification_finish_run:
  assumes "\<not> panicked s" "i < length (threads s)" "threads s ! i = A46 p"
  shows "run (AddNotification_finish i) s =
     Some (s\<lparr>mutex := None, threads := (threads s)[i := Returned] @ [M50 p]\<rparr>)"
  using assms
  by (simp add: AddNotification_finish_def step_def Lock_def Unlock_def goto_def nth_append
      list_update_append1)

lemma AddNotification_run:
  assumes "\<not> panicked s" "mutex s = None" "p < length (heap s)"
  shows "run (AddNotification_schedule (length (threads s)) p ident err) s =
     Some (s\<lparr>heap := (heap s)[p := (heap s ! p)\<lparr>Id' := ident\<rparr>],
             Notifs := (Notifs s)(ident \<mapsto> p),
             mutex := None,
             threads := threads s @ [Returned, M50 p]\<rparr>)"
  using assms
  by (simp add: AddNotification_schedule_def run_append AddNotification_register_run
      AddNotification_finish_run)

lemma RemoveNotification_run:
  assumes "\<not> panicked s" "mutex s = None"
  shows "run (RemoveNotification_schedule (length (threads s)) target) s =
     Some (s\<lparr>Notifs := (Notifs s)(target := None), mutex := None,
             threads := threads s @ [Returned]\<rparr>)"
  using assms
  by (simp add: RemoveNotification_schedule_def step_def Lock_def Unlock_def goto_def nth_append)

lemma monitorFunc_run:
  assumes "\<not> panicked s" "mutex s = None" "d < length (threads s)" "threads s ! d = F82 p"
  shows "run (monitorFunc_schedule d (heap s ! p) err) s =
     Some (s\<lparr>Notifs := (Notifs s)(Id' (heap s ! p) := None), mutex := None,
             threads := (threads s)[d := F80],
             trace := trace s @ monitorFunc_events (clock s) p (heap s ! p) err\<rparr>)"
proof (cases "Message (heap s ! p)")
  case (Some m)
  with assms show ?thesis
    by (simp add: monitorFunc_schedule_def monitorFunc_events_def step_def Lock_def Unlock_def
        goto_def)
next
  case None
  note n = this
  show ?thesis
  proof (cases "MulticastMessage (heap s ! p)")
    case (Some mm)
    with n assms show ?thesis
      by (simp add: monitorFunc_schedule_def monitorFunc_events_def step_def Lock_def Unlock_def
          goto_def)
  next
    case None
    with n assms show ?thesis
      by (simp add: monitorFunc_schedule_def monitorFunc_events_def step_def Lock_def Unlock_def
          goto_def)
  qed
qed

lemma monitorAndSend_run:
  assumes "\<not> panicked s" "mutex s = None" "w < length (threads s)" "threads s ! w = M50 p"
    "ScheduledTime (heap s ! p) \<le> clock s" "notificationSem s < maxConcurrentNotifications"
    "d < length (threads s)" "threads s ! d = F80"
  shows "run (monitorAndSend_schedule w d) s =
     Some (s\<lparr>heap := (heap s)[p := (heap s ! p)\<lparr>CompletionStatus := True\<rparr>],
             mutex := None,
             threads := (threads s)[w := Returned, d := F82 p],
             readings := readings s @ [(p, clock s)]\<rparr>)"
proof -
  from assms have "w \<noteq> d" by auto
  with assms show ?thesis
    by (simp add: monitorAndSend_schedule_def step_def Lock_def Unlock_def goto_def
        nth_list_update list_update_swap)
qed

subsection \<open>The example runs\<close>

lemma delivered_run: "run delivered_schedule startSchedulingNotifications = Some delivered_state"
  by (simp add: delivered_schedule_def delivered_state_def eval_simps)

lemma marked_run: "run marked_schedule startSchedulingNotifications = Some marked_state"
  by (simp add: marked_schedule_def marked_state_def marking_schedule_def
      delivered_schedule_def eval_simps)

lemma far_run: "run far_schedule startSchedulingNotifications = Some far_state"
  by (simp add: far_schedule_def far_state_def eval_simps)

lemma marking_run: "run marking_schedule startSchedulingNotifications = Some marking_state"
  by (simp add: marking_schedule_def marking_state_def delivered_schedule_def
      delivered_state_def eval_simps)

lemma handoff_run:
  "ScheduledTime n \<le> 0 \<Longrightarrow>
   run (handoff_schedule n ident) startSchedulingNotifications = Some (handed_state n ident)"
  by (simp add: handoff_schedule_def handed_state_def eval_simps)

lemma two_adds_first_run:
  "run two_adds_first startSchedulingNotifications = Some first_added_state"
  by (simp add: two_adds_first_def first_added_state_def AddNotification_schedule_def
      AddNotification_register_def AddNotification_finish_def eval_simps)

lemma two_adds_second_run:
  "run two_adds_second first_added_state = Some second_added_state"
  by (simp add: two_adds_second_def first_added_state_def second_added_state_def
      AddNotification_schedule_def AddNotification_register_def AddNotification_finish_def
      eval_simps)

section \<open>The claims\<close>

text \<open>
  C1. In every state the scheduler can reach, the number of waiters between their
  acquisition of the semaphore (line 56) and their release of it (line 66) is the
  number of tokens in \<^verbatim>\<open>notificationSem\<close>, and it is at most
  \<^verbatim>\<open>maxConcurrentNotifications\<close>, which is 3600.
\<close>

theorem gate_capacity_never_exceeded:
  assumes "run as startSchedulingNotifications = Some s"
  shows "length (filter holds_slot (threads s)) = notificationSem s \<and>
         length (filter holds_slot (threads s)) \<le> maxConcurrentNotifications \<and>
         maxConcurrentNotifications = 3600"
  using gate_inv_run [OF assms]
  by (simp add: gate_inv_def maxConcurrentNotifications_def)

theorem gate_capacity_never_exceeded_witness:
  "run admitted_schedule startSchedulingNotifications = Some admitted_state \<and>
   length (filter holds_slot (threads admitted_state)) = notificationSem admitted_state \<and>
   length (filter holds_slot (threads admitted_state)) \<le> maxConcurrentNotifications \<and>
   maxConcurrentNotifications = 3600"
proof -
  have r: "run admitted_schedule startSchedulingNotifications = Some admitted_state"
    by (simp add: admitted_schedule_def admitted_state_def eval_simps)
  show ?thesis
    using r gate_capacity_never_exceeded [OF r] by simp
qed

text \<open>
  C2, as the code has it. The waiter reads \<^verbatim>\<open>now\<close> (line 50), sleeps exactly when
  \<^verbatim>\<open>ScheduledTime\<close> is after \<^verbatim>\<open>now\<close>, that is, when the delay is positive, and
  otherwise goes to the gate at once; the delay is \<^verbatim>\<open>ScheduledTime.Sub(now)\<close>, which
  is the difference when it is at most the largest \<^verbatim>\<open>Duration\<close>, \<open>2 ^ 63 - 1\<close>
  nanoseconds, and that largest \<^verbatim>\<open>Duration\<close> when the difference is more. In every
  reachable state, for each client call in the trace, for each waiter at the gate (line
  56) or at the handoff (line 58) and for the end of each sleep, a waiter of the
  notification has read a \<^verbatim>\<open>now\<close>, not after the instant in question, such that the
  instant is not before the scheduled time, or not before \<^verbatim>\<open>now\<close> plus the largest
  \<^verbatim>\<open>Duration\<close>; so when the scheduled time is at most the largest \<^verbatim>\<open>Duration\<close> after
  \<^verbatim>\<open>now\<close>, the instant is not before the scheduled time. The claim without that
  condition fails: a notification scheduled \<open>2 ^ 63 + 4\<close> nanoseconds ahead is
  delivered five nanoseconds early.
\<close>

theorem no_dispatch_before_ScheduledTime_or_maxDuration:
  assumes "run as startSchedulingNotifications = Some s"
  shows "(\<forall>x\<in>set (trace s). \<forall>p. delivered (snd x) = Some p \<longrightarrow>
            (\<exists>r\<in>set (readings s). fst r = p \<and> snd r \<le> fst x \<and>
               min (ScheduledTime (heap s ! p)) (snd r + maxDuration) \<le> fst x \<and>
               (ScheduledTime (heap s ! p) - snd r \<le> maxDuration \<longrightarrow>
                  ScheduledTime (heap s ! p) \<le> fst x))) \<and>
         (\<forall>i<length (threads s). \<forall>p. threads s ! i = M56 p \<or> threads s ! i = M58 p \<longrightarrow>
            (\<exists>r\<in>set (readings s). fst r = p \<and> snd r \<le> clock s \<and>
               min (ScheduledTime (heap s ! p)) (snd r + maxDuration) \<le> clock s \<and>
               (ScheduledTime (heap s ! p) - snd r \<le> maxDuration \<longrightarrow>
                  ScheduledTime (heap s ! p) \<le> clock s))) \<and>
         (\<forall>i<length (threads s). \<forall>p wake. threads s ! i = M52_sleeping p wake \<longrightarrow>
            (\<exists>r\<in>set (readings s). fst r = p \<and> snd r \<le> wake \<and>
               min (ScheduledTime (heap s ! p)) (snd r + maxDuration) \<le> wake \<and>
               (ScheduledTime (heap s ! p) - snd r \<le> maxDuration \<longrightarrow>
                  ScheduledTime (heap s ! p) \<le> wake))) \<and>
         (\<forall>i p now. exec i (M51 p now) s =
            Some (goto i (if 0 < Sub (ScheduledTime (heap s ! p)) now then M52 p now
                          else M56 p) s)) \<and>
         (\<forall>i p now. exec i (M52 p now) s =
            Some (goto i (M52_sleeping p (clock s + Sub (ScheduledTime (heap s ! p)) now)) s)) \<and>
         (\<forall>i p wake. exec i (M52_sleeping p wake) s =
            (if clock s < wake then None else Some (goto i (M56 p) s))) \<and>
         (\<forall>t u. u < t \<and> t - u \<le> maxDuration \<longrightarrow> Sub t u = t - u) \<and>
         (\<forall>t u. maxDuration < t - u \<longrightarrow> Sub t u = maxDuration) \<and>
         maxDuration = 2 ^ 63 - 1"
proof -
  have inv: "time_inv s" using assms by (rule time_inv_run)
  have ok: "\<And>i. i < length (threads s) \<Longrightarrow> pc_ok s (threads s ! i)"
    using inv by (simp add: time_inv_def)
  have ev: "\<forall>x\<in>set (trace s). \<forall>p. delivered (snd x) = Some p \<longrightarrow>
      (\<exists>r\<in>set (readings s). fst r = p \<and> snd r \<le> fst x \<and>
         min (ScheduledTime (heap s ! p)) (snd r + maxDuration) \<le> fst x \<and>
         (ScheduledTime (heap s ! p) - snd r \<le> maxDuration \<longrightarrow>
            ScheduledTime (heap s ! p) \<le> fst x))"
  proof (intro ballI allI impI)
    fix x p assume "x \<in> set (trace s)" "delivered (snd x) = Some p"
    with inv have "due_by s p (fst x)" by (auto simp: time_inv_def event_ok_def)
    then show "\<exists>r\<in>set (readings s). fst r = p \<and> snd r \<le> fst x \<and>
         min (ScheduledTime (heap s ! p)) (snd r + maxDuration) \<le> fst x \<and>
         (ScheduledTime (heap s ! p) - snd r \<le> maxDuration \<longrightarrow>
            ScheduledTime (heap s ! p) \<le> fst x)" by (rule due_by_on_time)
  qed
  have gate: "\<forall>i<length (threads s). \<forall>p. threads s ! i = M56 p \<or> threads s ! i = M58 p \<longrightarrow>
      (\<exists>r\<in>set (readings s). fst r = p \<and> snd r \<le> clock s \<and>
         min (ScheduledTime (heap s ! p)) (snd r + maxDuration) \<le> clock s \<and>
         (ScheduledTime (heap s ! p) - snd r \<le> maxDuration \<longrightarrow>
            ScheduledTime (heap s ! p) \<le> clock s))"
  proof (intro allI impI)
    fix i p assume "i < length (threads s)" "threads s ! i = M56 p \<or> threads s ! i = M58 p"
    with ok [of i] have "due_by s p (clock s)" by auto
    then show "\<exists>r\<in>set (readings s). fst r = p \<and> snd r \<le> clock s \<and>
         min (ScheduledTime (heap s ! p)) (snd r + maxDuration) \<le> clock s \<and>
         (ScheduledTime (heap s ! p) - snd r \<le> maxDuration \<longrightarrow>
            ScheduledTime (heap s ! p) \<le> clock s)" by (rule due_by_on_time)
  qed
  have sleep: "\<forall>i<length (threads s). \<forall>p wake. threads s ! i = M52_sleeping p wake \<longrightarrow>
      (\<exists>r\<in>set (readings s). fst r = p \<and> snd r \<le> wake \<and>
         min (ScheduledTime (heap s ! p)) (snd r + maxDuration) \<le> wake \<and>
         (ScheduledTime (heap s ! p) - snd r \<le> maxDuration \<longrightarrow>
            ScheduledTime (heap s ! p) \<le> wake))"
  proof (intro allI impI)
    fix i p wake assume "i < length (threads s)" "threads s ! i = M52_sleeping p wake"
    with ok [of i] have "due_by s p wake" by auto
    then show "\<exists>r\<in>set (readings s). fst r = p \<and> snd r \<le> wake \<and>
         min (ScheduledTime (heap s ! p)) (snd r + maxDuration) \<le> wake \<and>
         (ScheduledTime (heap s ! p) - snd r \<le> maxDuration \<longrightarrow>
            ScheduledTime (heap s ! p) \<le> wake)" by (rule due_by_on_time)
  qed
  have sub: "(\<forall>t u. u < t \<and> t - u \<le> maxDuration \<longrightarrow> Sub t u = t - u) \<and>
      (\<forall>t u. maxDuration < t - u \<longrightarrow> Sub t u = maxDuration) \<and> maxDuration = 2 ^ 63 - 1"
    by (simp add: Sub_def maxDuration_def minDuration_def)
  have "\<forall>i p now. exec i (M51 p now) s =
      Some (goto i (if 0 < Sub (ScheduledTime (heap s ! p)) now then M52 p now else M56 p) s)"
    by (simp add: Sub_positive)
  with ev gate sleep sub show ?thesis by simp
qed

theorem no_dispatch_before_ScheduledTime_or_maxDuration_witness:
  "run delivered_schedule startSchedulingNotifications = Some delivered_state \<and>
   (7, Call_Send 0 \<lparr>Token = ''t''\<rparr>) \<in> set (trace delivered_state) \<and>
   readings delivered_state = [(0, 0)] \<and>
   ScheduledTime (heap delivered_state ! 0) - 0 \<le> maxDuration \<and>
   ScheduledTime (heap delivered_state ! 0) \<le> 7"
proof -
  have r: "run delivered_schedule startSchedulingNotifications = Some delivered_state"
    by (rule delivered_run)
  have m: "(7, Call_Send 0 \<lparr>Token = ''t''\<rparr>) \<in> set (trace delivered_state)"
    by (simp add: delivered_state_def)
  have rd: "readings delivered_state = [(0, 0)]" by (simp add: delivered_state_def)
  have fits: "ScheduledTime (heap delivered_state ! 0) - 0 \<le> maxDuration"
    by (simp add: delivered_state_def maxDuration_def)
  from no_dispatch_before_ScheduledTime_or_maxDuration [OF r]
  have "\<forall>x\<in>set (trace delivered_state). \<forall>p. delivered (snd x) = Some p \<longrightarrow>
      (\<exists>r\<in>set (readings delivered_state). fst r = p \<and> snd r \<le> fst x \<and>
         min (ScheduledTime (heap delivered_state ! p)) (snd r + maxDuration) \<le> fst x \<and>
         (ScheduledTime (heap delivered_state ! p) - snd r \<le> maxDuration \<longrightarrow>
            ScheduledTime (heap delivered_state ! p) \<le> fst x))" by (rule conjunct1)
  from this m have "\<forall>p. delivered (snd (7::int, Call_Send 0 \<lparr>Token = ''t''\<rparr>)) = Some p \<longrightarrow>
      (\<exists>r\<in>set (readings delivered_state). fst r = p \<and>
         snd r \<le> fst (7::int, Call_Send 0 \<lparr>Token = ''t''\<rparr>) \<and>
         min (ScheduledTime (heap delivered_state ! p)) (snd r + maxDuration)
           \<le> fst (7::int, Call_Send 0 \<lparr>Token = ''t''\<rparr>) \<and>
         (ScheduledTime (heap delivered_state ! p) - snd r \<le> maxDuration \<longrightarrow>
            ScheduledTime (heap delivered_state ! p)
              \<le> fst (7::int, Call_Send 0 \<lparr>Token = ''t''\<rparr>)))"
    by (rule bspec)
  with rd fits have "ScheduledTime (heap delivered_state ! 0) \<le> 7" by simp
  with r m rd fits show ?thesis by simp
qed

theorem dispatch_before_ScheduledTime_beyond_maxDuration:
  "run far_schedule startSchedulingNotifications = Some far_state \<and>
   (9223372036854775807, Call_Send 0 \<lparr>Token = ''t''\<rparr>) \<in> set (trace far_state) \<and>
   9223372036854775807 < ScheduledTime (heap far_state ! 0)"
  using far_run by (simp add: far_state_def)

text \<open>
  C3. When the consumer loop has received a notification (it is at line 82) and runs its
  iteration, whatever the payload and whether or not the client returns an error: the
  iteration ends back at the \<^verbatim>\<open>range\<close> with the key \<^verbatim>\<open>notif.Id\<close> deleted from the
  registry, and when that key was the only one under which the record was registered,
  the record is in the registry no more. The process does not panic, no goroutine is
  added and no other goroutine moves (nothing is enqueued again or reported to a
  caller), the records are untouched, and the trace grows by the events of lines 82 to
  96: at most one client call, and with neither payload only the log line of line 95.
\<close>

theorem monitorFunc_removes_whatever_the_outcome:
  assumes "\<not> panicked s" "mutex s = None" "d < length (threads s)" "threads s ! d = F82 p"
  shows "\<exists>s'. run (monitorFunc_schedule d (heap s ! p) err) s = Some s' \<and>
      Notifs s' = (Notifs s)(Id' (heap s ! p) := None) \<and>
      Notifs s' (Id' (heap s ! p)) = None \<and>
      ((\<forall>k. Notifs s k = Some p \<longrightarrow> k = Id' (heap s ! p)) \<longrightarrow> p \<notin> ran (Notifs s')) \<and>
      threads s' = (threads s)[d := F80] \<and> heap s' = heap s \<and> \<not> panicked s' \<and>
      notificationSem s' = notificationSem s \<and>
      trace s' = trace s @ monitorFunc_events (clock s) p (heap s ! p) err \<and>
      length (filter (\<lambda>x. delivered (snd x) \<noteq> None)
        (monitorFunc_events (clock s) p (heap s ! p) err)) \<le> 1 \<and>
      (Message (heap s ! p) = None \<and> MulticastMessage (heap s ! p) = None \<longrightarrow>
         monitorFunc_events (clock s) p (heap s ! p) err = [(clock s, Log_no_message_specified p)])"
proof -
  have "length (filter (\<lambda>x. delivered (snd x) \<noteq> None)
      (monitorFunc_events (clock s) p (heap s ! p) err)) \<le> 1"
    by (simp add: monitorFunc_events_def split: option.splits)
  moreover have "Message (heap s ! p) = None \<and> MulticastMessage (heap s ! p) = None \<longrightarrow>
      monitorFunc_events (clock s) p (heap s ! p) err = [(clock s, Log_no_message_specified p)]"
    by (simp add: monitorFunc_events_def)
  moreover have "(\<forall>k. Notifs s k = Some p \<longrightarrow> k = Id' (heap s ! p)) \<longrightarrow>
      p \<notin> ran ((Notifs s)(Id' (heap s ! p) := None))"
    using removed_from_ran [of "Notifs s" p "Id' (heap s ! p)"] by blast
  ultimately show ?thesis
    using assms by (simp add: monitorFunc_run)
qed

theorem monitorFunc_removes_whatever_the_outcome_witness:
  "run (handoff_schedule no_payload ''b'') startSchedulingNotifications =
     Some (handed_state no_payload ''b'') \<and>
   \<not> panicked (handed_state no_payload ''b'') \<and> mutex (handed_state no_payload ''b'') = None \<and>
   threads (handed_state no_payload ''b'') ! 0 = F82 0 \<and>
   Notifs (handed_state no_payload ''b'') ''b'' = Some 0 \<and>
   (\<exists>s'. run (monitorFunc_schedule 0 (heap (handed_state no_payload ''b'') ! 0) False)
           (handed_state no_payload ''b'') = Some s' \<and>
         Notifs s' ''b'' = None \<and> trace s' = [(0, Log_no_message_specified 0)] \<and>
         threads s' ! 0 = F80)"
proof -
  have r: "run (handoff_schedule no_payload ''b'') startSchedulingNotifications =
      Some (handed_state no_payload ''b'')"
    by (rule handoff_run) (simp add: no_payload_def literal_def)
  have h: "\<not> panicked (handed_state no_payload ''b'')" "mutex (handed_state no_payload ''b'') = None"
    "0 < length (threads (handed_state no_payload ''b''))"
    "threads (handed_state no_payload ''b'') ! 0 = F82 0"
    by (simp_all add: handed_state_def)
  have n: "Notifs (handed_state no_payload ''b'') ''b'' = Some 0"
    by (simp add: handed_state_def)
  from monitorFunc_removes_whatever_the_outcome [OF h, of False]
  obtain s' where
    "run (monitorFunc_schedule 0 (heap (handed_state no_payload ''b'') ! 0) False)
       (handed_state no_payload ''b'') = Some s'"
    "Notifs s' (Id' (heap (handed_state no_payload ''b'') ! 0)) = None"
    "threads s' = (threads (handed_state no_payload ''b''))[0 := F80]"
    "trace s' = trace (handed_state no_payload ''b'') @
       monitorFunc_events (clock (handed_state no_payload ''b'')) 0
         (heap (handed_state no_payload ''b'') ! 0) False"
    by blast
  then have "run (monitorFunc_schedule 0 (heap (handed_state no_payload ''b'') ! 0) False)
           (handed_state no_payload ''b'') = Some s' \<and>
         Notifs s' ''b'' = None \<and> trace s' = [(0, Log_no_message_specified 0)] \<and>
         threads s' ! 0 = F80"
    by (simp add: handed_state_def no_payload_def literal_def monitorFunc_events_def)
  with r h n show ?thesis by blast
qed

text \<open>
  C4, as the code has it. The identifier is whatever the generator returns: its error is
  dropped and the identifier is not compared with those in use, so it need not be fresh
  or unique. The rest is as claimed. In every reachable state: a goroutine that is about
  to insert into the registry (line 45) or to start the waiter (line 46) holds the
  mutex; the one about to start the waiter of a notification finds that notification in
  the registry; and the holder of the mutex is never blocked, so a caller waiting for
  the mutex waits neither for a sleep nor for the gate. When the mutex is free, a caller
  that builds a record as main.go does (payload and time, the rest zero) and calls
  \<^verbatim>\<open>AddNotification\<close> gets, with no other goroutine moving: after line 45 the record,
  with the generator's identifier and \<^verbatim>\<open>CompletionStatus\<close> false, in the registry
  under that identifier, the mutex held by the caller and no waiter yet; then the
  waiter at line 50 and the caller returned, with the clock, the gate and the trace as
  they were, whatever the scheduled time and however full the gate. The claim that the
  identifier is fresh and unique fails: when the generator fails twice, the second
  notification gets the identifier of the first, which is still registered and waiting.
\<close>

theorem AddNotification_registers_then_starts_the_waiter:
  assumes "run as startSchedulingNotifications = Some s"
  shows "(\<forall>i<length (threads s). \<forall>p. threads s ! i = A45 p \<or> threads s ! i = A46 p \<longrightarrow>
            mutex s = Some i) \<and>
         (\<forall>i<length (threads s). \<forall>p. threads s ! i = A46 p \<longrightarrow> p \<in> ran (Notifs s)) \<and>
         (\<forall>i. mutex s = Some i \<longrightarrow> (\<exists>s'. exec i (threads s ! i) s = Some s')) \<and>
         (\<not> panicked s \<and> mutex s = None \<longrightarrow>
            (\<exists>s1 s2.
               run (Alloc (literal m mm t) #
                    AddNotification_register (length (threads s)) (length (heap s)) ident err) s =
                 Some s1 \<and>
               heap s1 = heap s @ [\<lparr>Id' = ident, Message = m, MulticastMessage = mm,
                                    ScheduledTime = t, CompletionStatus = False\<rparr>] \<and>
               Notifs s1 = (Notifs s)(ident \<mapsto> length (heap s)) \<and>
               mutex s1 = Some (length (threads s)) \<and>
               threads s1 = threads s @ [A46 (length (heap s))] \<and>
               run (AddNotification_finish (length (threads s))) s1 = Some s2 \<and>
               threads s2 = threads s @ [Returned, M50 (length (heap s))] \<and>
               heap s2 = heap s1 \<and> Notifs s2 = Notifs s1 \<and> mutex s2 = None \<and>
               clock s2 = clock s \<and> notificationSem s2 = notificationSem s \<and>
               trace s2 = trace s \<and> \<not> panicked s2))"
proof -
  have mi: "mutex_inv s" using assms by (rule mutex_inv_run)
  have gi: "gate_inv s" using assms by (rule gate_inv_run)
  have ri: "reg_inv s" using assms by (rule reg_inv_run)
  have a: "\<forall>i<length (threads s). \<forall>p. threads s ! i = A45 p \<or> threads s ! i = A46 p \<longrightarrow>
      mutex s = Some i"
  proof (intro allI impI)
    fix i p assume i: "i < length (threads s)"
      and "threads s ! i = A45 p \<or> threads s ! i = A46 p"
    then have "critical (threads s ! i)" by auto
    with mi i show "mutex s = Some i" by (simp add: mutex_inv_def)
  qed
  have b: "\<forall>i<length (threads s). \<forall>p. threads s ! i = A46 p \<longrightarrow> p \<in> ran (Notifs s)"
    using ri by (simp add: reg_inv_def)
  have h: "\<forall>i. mutex s = Some i \<longrightarrow> (\<exists>s'. exec i (threads s ! i) s = Some s')"
    using mi gi by (blast intro: holder_not_blocked)
  have c: "\<exists>s1 s2.
       run (Alloc (literal m mm t) #
            AddNotification_register (length (threads s)) (length (heap s)) ident err) s =
         Some s1 \<and>
       heap s1 = heap s @ [\<lparr>Id' = ident, Message = m, MulticastMessage = mm,
                            ScheduledTime = t, CompletionStatus = False\<rparr>] \<and>
       Notifs s1 = (Notifs s)(ident \<mapsto> length (heap s)) \<and>
       mutex s1 = Some (length (threads s)) \<and>
       threads s1 = threads s @ [A46 (length (heap s))] \<and>
       run (AddNotification_finish (length (threads s))) s1 = Some s2 \<and>
       threads s2 = threads s @ [Returned, M50 (length (heap s))] \<and>
       heap s2 = heap s1 \<and> Notifs s2 = Notifs s1 \<and> mutex s2 = None \<and>
       clock s2 = clock s \<and> notificationSem s2 = notificationSem s \<and>
       trace s2 = trace s \<and> \<not> panicked s2"
    if free: "\<not> panicked s" "mutex s = None"
  proof -
    let ?s0 = "s\<lparr>heap := heap s @ [literal m mm t]\<rparr>"
    let ?p = "length (heap s)"
    let ?i = "length (threads s)"
    have 0: "step (Alloc (literal m mm t)) s = Some ?s0"
      using free by (simp add: step_def)
    have "\<not> panicked ?s0" "mutex ?s0 = None" "?p < length (heap ?s0)"
      using free by simp_all
    from AddNotification_register_run [OF this, of ident err]
    have 1: "run (AddNotification_register ?i ?p ident err) ?s0 =
      Some (?s0\<lparr>heap := (heap ?s0)[?p := (heap ?s0 ! ?p)\<lparr>Id' := ident\<rparr>],
              Notifs := (Notifs ?s0)(ident \<mapsto> ?p), mutex := Some ?i,
              threads := threads ?s0 @ [A46 ?p]\<rparr>)"
      (is "_ = Some ?s1") by simp
    have "\<not> panicked ?s1" "?i < length (threads ?s1)" "threads ?s1 ! ?i = A46 ?p"
      using free by simp_all
    from AddNotification_finish_run [OF this]
    have 2: "run (AddNotification_finish ?i) ?s1 =
      Some (?s1\<lparr>mutex := None, threads := (threads ?s1)[?i := Returned] @ [M50 ?p]\<rparr>)"
      (is "_ = Some ?s2") .
    show ?thesis
      apply (rule exI [of _ ?s1])
      apply (rule exI [of _ ?s2])
      apply (simp only: run.simps 0 option.case 1 2)
      using free apply (simp add: literal_def)
      done
  qed
  show ?thesis using a b h c by blast
qed

theorem AddNotification_registers_then_starts_the_waiter_witness:
  "run [] startSchedulingNotifications = Some startSchedulingNotifications \<and>
   \<not> panicked startSchedulingNotifications \<and> mutex startSchedulingNotifications = None \<and>
   (\<exists>s1 s2.
      run (Alloc (literal (Some \<lparr>Token = ''t''\<rparr>) None 120) #
           AddNotification_register 1 0 ''a'' False) startSchedulingNotifications = Some s1 \<and>
      Notifs s1 ''a'' = Some 0 \<and> mutex s1 = Some 1 \<and> threads s1 = [F80, A46 0] \<and>
      CompletionStatus (heap s1 ! 0) = False \<and>
      run (AddNotification_finish 1) s1 = Some s2 \<and>
      threads s2 = [F80, Returned, M50 0] \<and> clock s2 = 0)"
proof -
  have r: "run [] startSchedulingNotifications = Some startSchedulingNotifications" by simp
  have h: "\<not> panicked startSchedulingNotifications \<and> mutex startSchedulingNotifications = None"
    by (simp add: startSchedulingNotifications_def)
  from AddNotification_registers_then_starts_the_waiter
    [OF r, of "Some \<lparr>Token = ''t''\<rparr>" None 120 "''a''" False] h
  obtain s1 s2 where
    "run (Alloc (literal (Some \<lparr>Token = ''t''\<rparr>) None 120) #
          AddNotification_register (length (threads startSchedulingNotifications))
            (length (heap startSchedulingNotifications)) ''a'' False)
       startSchedulingNotifications = Some s1"
    "heap s1 = heap startSchedulingNotifications @
       [\<lparr>Id' = ''a'', Message = Some \<lparr>Token = ''t''\<rparr>, MulticastMessage = None,
         ScheduledTime = 120, CompletionStatus = False\<rparr>]"
    "Notifs s1 = (Notifs startSchedulingNotifications)
       (''a'' \<mapsto> length (heap startSchedulingNotifications))"
    "mutex s1 = Some (length (threads startSchedulingNotifications))"
    "threads s1 = threads startSchedulingNotifications @
       [A46 (length (heap startSchedulingNotifications))]"
    "run (AddNotification_finish (length (threads startSchedulingNotifications))) s1 = Some s2"
    "threads s2 = threads startSchedulingNotifications @
       [Returned, M50 (length (heap startSchedulingNotifications))]"
    "clock s2 = clock startSchedulingNotifications"
    by blast
  then have "run (Alloc (literal (Some \<lparr>Token = ''t''\<rparr>) None 120) #
           AddNotification_register 1 0 ''a'' False) startSchedulingNotifications = Some s1 \<and>
      Notifs s1 ''a'' = Some 0 \<and> mutex s1 = Some 1 \<and> threads s1 = [F80, A46 0] \<and>
      CompletionStatus (heap s1 ! 0) = False \<and>
      run (AddNotification_finish 1) s1 = Some s2 \<and>
      threads s2 = [F80, Returned, M50 0] \<and> clock s2 = 0"
    by (simp add: startSchedulingNotifications_def)
  with r h show ?thesis by blast
qed

theorem generated_identifier_not_unique:
  "run two_adds_first startSchedulingNotifications = Some first_added_state \<and>
   Notifs first_added_state [] = Some 0 \<and>
   threads first_added_state ! 2 = M50 0 \<and>
   run (AddNotification_schedule 3 1 [] True) first_added_state = Some second_added_state \<and>
   Id' (heap second_added_state ! 0) = [] \<and>
   Id' (heap second_added_state ! 1) = [] \<and>
   threads second_added_state = [F80, Returned, M50 0, Returned, M50 1]"
  using two_adds_first_run two_adds_second_run
  by (simp add: first_added_state_def second_added_state_def two_adds_second_def literal_def)

text \<open>
  C5, as the code has it. The registry is a map, so an identifier has at most one entry.
  \<^verbatim>\<open>AddNotification\<close> does not look at the generator's error or at the registry: the
  new record is stored under the returned identifier, an entry already there under that
  identifier is replaced, and the entries under other identifiers stay; when the
  identifier was free, every earlier entry stays. The claim that an empty or duplicate
  identifier never overwrites an entry fails: when the generator fails twice, the second
  call replaces the entry of the first notification, whose waiter is still there, with
  no panic and no log line.
\<close>

theorem AddNotification_inserts_or_overwrites:
  assumes "\<not> panicked s" "mutex s = None" "p < length (heap s)"
  shows "\<exists>s'. run (AddNotification_schedule (length (threads s)) p ident err) s = Some s' \<and>
      Notifs s' = (Notifs s)(ident \<mapsto> p) \<and>
      Notifs s' ident = Some p \<and>
      (\<forall>k. k \<noteq> ident \<longrightarrow> Notifs s' k = Notifs s k) \<and>
      (Notifs s ident = None \<longrightarrow> (\<forall>k q. Notifs s k = Some q \<longrightarrow> Notifs s' k = Some q)) \<and>
      \<not> panicked s' \<and> trace s' = trace s"
  using assms by (auto simp: AddNotification_run)

theorem AddNotification_inserts_or_overwrites_witness:
  "\<not> panicked first_added_state \<and> mutex first_added_state = None \<and>
   1 < length (heap first_added_state) \<and> Notifs first_added_state [] = Some 0 \<and>
   (\<exists>s'. run (AddNotification_schedule 3 1 [] True) first_added_state = Some s' \<and>
         Notifs s' [] = Some 1)"
proof -
  have h: "\<not> panicked first_added_state" "mutex first_added_state = None"
    "1 < length (heap first_added_state)"
    by (simp_all add: first_added_state_def)
  have n: "Notifs first_added_state [] = Some 0" by (simp add: first_added_state_def)
  have l: "length (threads first_added_state) = 3" by (simp add: first_added_state_def)
  from AddNotification_inserts_or_overwrites [OF h, of "[]" True]
  obtain s' where
    "run (AddNotification_schedule (length (threads first_added_state)) 1 [] True)
       first_added_state = Some s'"
    "Notifs s' [] = Some 1"
    by blast
  then have "run (AddNotification_schedule 3 1 [] True) first_added_state = Some s' \<and>
         Notifs s' [] = Some 1"
    by (simp add: l)
  with h n show ?thesis by blast
qed

theorem duplicate_id_overwrites_entry:
  "run two_adds_first startSchedulingNotifications = Some first_added_state \<and>
   Notifs first_added_state [] = Some 0 \<and>
   threads first_added_state ! 2 = M50 0 \<and>
   run two_adds_second first_added_state = Some second_added_state \<and>
   Notifs second_added_state [] = Some 1 \<and>
   0 \<notin> ran (Notifs second_added_state) \<and>
   threads second_added_state ! 2 = M50 0 \<and>
   trace second_added_state = [] \<and> \<not> panicked second_added_state"
  using two_adds_first_run two_adds_second_run
  by (simp add: first_added_state_def second_added_state_def)

text \<open>
  C6. In every reachable state at most one goroutine is inside a call of the messaging
  client (\<^verbatim>\<open>Send\<close> or \<^verbatim>\<open>SendEachForMulticast\<close>); the only goroutine that ever
  executes the consumer loop is goroutine 0, the one main.go launched; every step that
  adds to the trace of log lines and client calls is a step of goroutine 0; and a waiter
  can hand a notification over only while goroutine 0 waits at its \<^verbatim>\<open>range\<close>, that is,
  after it has finished with the previous notification.
\<close>

theorem deliveries_are_serialized:
  assumes "run as startSchedulingNotifications = Some s"
  shows "length (filter in_client_call (threads s)) \<le> 1 \<and>
         (\<forall>i<length (threads s). monitor_pc (threads s ! i) = (i = 0)) \<and>
         (\<forall>a s'. step a s = Some s' \<and> trace s' \<noteq> trace s \<longrightarrow>
            a = Exec 0 \<or> a = ClientReturn 0 True) \<and>
         (\<forall>i d s'. step (Handoff i d) s = Some s' \<longrightarrow> d = 0 \<and> threads s ! 0 = F80)"
proof -
  have inv: "monitor_inv s" using assms by (rule monitor_inv_run)
  have only: "\<forall>i<length (threads s). monitor_pc (threads s ! i) = (i = 0)"
    using inv by (simp add: monitor_inv_def)
  have "\<forall>i<length (threads s). in_client_call (threads s ! i) \<longrightarrow> i = 0"
  proof (intro allI impI)
    fix i assume i: "i < length (threads s)" and c: "in_client_call (threads s ! i)"
    from c have "monitor_pc (threads s ! i)" by (cases "threads s ! i") simp_all
    with only i show "i = 0" by simp
  qed
  then have one: "length (filter in_client_call (threads s)) \<le> 1" by (rule only_first)
  have tr: "\<forall>a s'. step a s = Some s' \<and> trace s' \<noteq> trace s \<longrightarrow>
      a = Exec 0 \<or> a = ClientReturn 0 True"
    using inv by (blast dest: step_trace)
  have ho: "\<forall>i d s'. step (Handoff i d) s = Some s' \<longrightarrow> d = 0 \<and> threads s ! 0 = F80"
    using inv by (blast dest: step_Handoff)
  show ?thesis using one only tr ho by blast
qed

theorem deliveries_are_serialized_witness:
  "run delivered_schedule startSchedulingNotifications = Some delivered_state \<and>
   length (filter in_client_call (threads delivered_state)) = 1 \<and>
   in_client_call (threads delivered_state ! 0)"
proof -
  have r: "run delivered_schedule startSchedulingNotifications = Some delivered_state"
    by (rule delivered_run)
  have "length (filter in_client_call (threads delivered_state)) \<le> 1"
    using deliveries_are_serialized [OF r] by (rule conjunct1)
  moreover have "in_client_call (threads delivered_state ! 0)"
    by (simp add: delivered_state_def)
  moreover have "1 \<le> length (filter in_client_call (threads delivered_state))"
    by (simp add: delivered_state_def)
  ultimately show ?thesis using r by simp
qed

text \<open>
  C7, as the code has it. In every reachable state: a waiter that is about to set
  \<^verbatim>\<open>CompletionStatus\<close> (line 63) or about to release its slot (line 66) holds the
  mutex, the one that \<^verbatim>\<open>AddNotification\<close> and \<^verbatim>\<open>RemoveNotification\<close> take around the
  registry; any step that changes the \<^verbatim>\<open>CompletionStatus\<close> of a record is line 63 of a
  waiter holding the mutex, sets it to true, and leaves that waiter at line 66 still
  holding the mutex; and at line 66 the release cannot block, is the waiter's next
  statement, happens under the mutex, and leaves the waiter without a slot. The claim
  that no notification holds a slot after being marked completed fails: between lines
  63 and 66 the notification is marked and its waiter still holds its slot, while the
  clock advances.
\<close>

theorem completed_flipped_under_lock_then_released:
  assumes "run as startSchedulingNotifications = Some s"
  shows "(\<forall>i<length (threads s). \<forall>p. threads s ! i = M63 p \<or> threads s ! i = M66 p \<longrightarrow>
            mutex s = Some i) \<and>
         (\<forall>a s' q. step a s = Some s' \<and> q < length (heap s) \<and>
              CompletionStatus (heap s' ! q) \<noteq> CompletionStatus (heap s ! q) \<longrightarrow>
            (\<exists>i. a = Exec i \<and> threads s ! i = M63 q \<and> mutex s = Some i \<and>
                 CompletionStatus (heap s' ! q) \<and> threads s' ! i = M66 q \<and>
                 mutex s' = Some i)) \<and>
         (\<forall>i<length (threads s). \<forall>p. threads s ! i = M66 p \<longrightarrow>
            0 < notificationSem s \<and>
            (\<exists>s'. exec i (threads s ! i) s = Some s' \<and>
                  notificationSem s' = notificationSem s - 1 \<and> mutex s' = Some i \<and>
                  \<not> holds_slot (threads s' ! i)))"
proof -
  have m: "mutex_inv s" using assms by (rule mutex_inv_run)
  have g: "gate_inv s" using assms by (rule gate_inv_run)
  have a: "\<forall>i<length (threads s). \<forall>p. threads s ! i = M63 p \<or> threads s ! i = M66 p \<longrightarrow>
      mutex s = Some i"
  proof (intro allI impI)
    fix i p assume i: "i < length (threads s)"
      and "threads s ! i = M63 p \<or> threads s ! i = M66 p"
    then have "critical (threads s ! i)" by auto
    with m i show "mutex s = Some i" by (simp add: mutex_inv_def)
  qed
  have b: "\<forall>a s' q. step a s = Some s' \<and> q < length (heap s) \<and>
      CompletionStatus (heap s' ! q) \<noteq> CompletionStatus (heap s ! q) \<longrightarrow>
      (\<exists>i. a = Exec i \<and> threads s ! i = M63 q \<and> mutex s = Some i \<and>
           CompletionStatus (heap s' ! q) \<and> threads s' ! i = M66 q \<and> mutex s' = Some i)"
    using m by (blast dest: step_CompletionStatus)
  have c: "\<forall>i<length (threads s). \<forall>p. threads s ! i = M66 p \<longrightarrow>
      0 < notificationSem s \<and>
      (\<exists>s'. exec i (threads s ! i) s = Some s' \<and>
            notificationSem s' = notificationSem s - 1 \<and> mutex s' = Some i \<and>
            \<not> holds_slot (threads s' ! i))"
  proof (intro allI impI)
    fix i p assume i: "i < length (threads s)" and l: "threads s ! i = M66 p"
    from filter_pos [OF i, of holds_slot] l
    have "0 < length (filter holds_slot (threads s))" by simp
    with g have pos: "0 < notificationSem s" by (simp add: gate_inv_def)
    from a i l have "mutex s = Some i" by blast
    with pos i l show "0 < notificationSem s \<and>
      (\<exists>s'. exec i (threads s ! i) s = Some s' \<and>
            notificationSem s' = notificationSem s - 1 \<and> mutex s' = Some i \<and>
            \<not> holds_slot (threads s' ! i))" by simp
  qed
  show ?thesis using a b c by blast
qed

theorem completed_flipped_under_lock_then_released_witness:
  "run marking_schedule startSchedulingNotifications = Some marking_state \<and>
   threads marking_state ! 2 = M63 0 \<and> mutex marking_state = Some 2"
proof -
  have r: "run marking_schedule startSchedulingNotifications = Some marking_state"
    by (rule marking_run)
  have l: "threads marking_state ! 2 = M63 0" by (simp add: marking_state_def)
  have n: "2 < length (threads marking_state)" by (simp add: marking_state_def)
  from completed_flipped_under_lock_then_released [OF r]
  have "\<forall>i<length (threads marking_state). \<forall>p.
      threads marking_state ! i = M63 p \<or> threads marking_state ! i = M66 p \<longrightarrow>
      mutex marking_state = Some i" by (rule conjunct1)
  with n l have "mutex marking_state = Some 2" by blast
  with r l show ?thesis by simp
qed

theorem completed_while_holding_slot:
  "run marked_schedule startSchedulingNotifications = Some marked_state \<and>
   CompletionStatus (heap marked_state ! 0) \<and>
   threads marked_state ! 2 = M66 0 \<and>
   holds_slot (threads marked_state ! 2) \<and>
   notificationSem marked_state = 1 \<and>
   clock marked_state = 10"
  using marked_run by (simp add: marked_state_def)

text \<open>
  C8. When the mutex is free, \<^verbatim>\<open>RemoveNotification(target)\<close> run from call to return:
  the \<^verbatim>\<open>delete\<close> of line 73 is executed by the holder of the mutex; afterwards the
  registry is the old one without \<open>target\<close>, which is the old one when \<open>target\<close> was
  absent; nothing else changes (no record, no log line, no panic; the caller has
  returned and the mutex is free again); and a second call leaves the registry as the
  first one left it.
\<close>

theorem RemoveNotification_idempotent:
  assumes "\<not> panicked s" "mutex s = None"
  shows "\<exists>sm s1 s2.
      run [CallRemove target, Exec (length (threads s))] s = Some sm \<and>
      mutex sm = Some (length (threads s)) \<and>
      threads sm ! length (threads s) = R73 target FromCaller \<and>
      run (RemoveNotification_schedule (length (threads s)) target) s = Some s1 \<and>
      run (RemoveNotification_schedule (length (threads s1)) target) s1 = Some s2 \<and>
      Notifs s1 = (Notifs s)(target := None) \<and>
      Notifs s2 = Notifs s1 \<and>
      (Notifs s target = None \<longrightarrow> Notifs s1 = Notifs s) \<and>
      heap s1 = heap s \<and> trace s1 = trace s \<and> clock s1 = clock s \<and>
      notificationSem s1 = notificationSem s \<and> mutex s1 = None \<and> \<not> panicked s1 \<and>
      threads s1 = threads s @ [Returned]"
proof -
  let ?s1 = "s\<lparr>Notifs := (Notifs s)(target := None), mutex := None,
               threads := threads s @ [Returned]\<rparr>"
  have 1: "run (RemoveNotification_schedule (length (threads s)) target) s = Some ?s1"
    using assms by (rule RemoveNotification_run)
  have "\<not> panicked ?s1" "mutex ?s1 = None" using assms by simp_all
  from RemoveNotification_run [OF this, of target]
  have 2: "run (RemoveNotification_schedule (length (threads ?s1)) target) ?s1 =
      Some (?s1\<lparr>Notifs := (Notifs ?s1)(target := None), mutex := None,
                 threads := threads ?s1 @ [Returned]\<rparr>)" .
  have m: "run [CallRemove target, Exec (length (threads s))] s =
      Some (s\<lparr>mutex := Some (length (threads s)),
              threads := threads s @ [R73 target FromCaller]\<rparr>)"
    using assms by (simp add: step_def Lock_def goto_def)
  have absent: "Notifs s target = None \<longrightarrow> Notifs ?s1 = Notifs s"
    by (auto simp: fun_eq_iff)
  show ?thesis
    apply (rule exI [of _ "s\<lparr>mutex := Some (length (threads s)),
              threads := threads s @ [R73 target FromCaller]\<rparr>"])
    apply (rule exI [of _ ?s1])
    apply (rule exI [of _ "?s1\<lparr>Notifs := (Notifs ?s1)(target := None), mutex := None,
                 threads := threads ?s1 @ [Returned]\<rparr>"])
    apply (intro conjI)
    using assms absent apply (simp_all only: 1 2 m)
    apply simp_all
    done
qed

theorem RemoveNotification_idempotent_witness:
  "\<not> panicked admitted_state \<and> mutex admitted_state = None \<and>
   Notifs admitted_state ''a'' = Some 0 \<and>
   (\<exists>s1 s2. run (RemoveNotification_schedule 3 ''a'') admitted_state = Some s1 \<and>
            run (RemoveNotification_schedule 4 ''a'') s1 = Some s2 \<and>
            Notifs s1 ''a'' = None \<and> Notifs s2 = Notifs s1)"
proof -
  have h: "\<not> panicked admitted_state" "mutex admitted_state = None"
    by (simp_all add: admitted_state_def)
  have n: "Notifs admitted_state ''a'' = Some 0" by (simp add: admitted_state_def)
  have l: "length (threads admitted_state) = 3" by (simp add: admitted_state_def)
  from RemoveNotification_idempotent [OF h, of "''a''"]
  obtain s1 s2 where
    "run (RemoveNotification_schedule (length (threads admitted_state)) ''a'') admitted_state =
       Some s1"
    "run (RemoveNotification_schedule (length (threads s1)) ''a'') s1 = Some s2"
    "Notifs s1 = (Notifs admitted_state)(''a'' := None)" "Notifs s2 = Notifs s1"
    "threads s1 = threads admitted_state @ [Returned]"
    by blast
  then have "run (RemoveNotification_schedule 3 ''a'') admitted_state = Some s1 \<and>
            run (RemoveNotification_schedule 4 ''a'') s1 = Some s2 \<and>
            Notifs s1 ''a'' = None \<and> Notifs s2 = Notifs s1"
    by (simp add: l)
  with h n show ?thesis by blast
qed

text \<open>
  C9. When the record that the consumer loop has received has both payloads, the
  iteration logs, calls \<^verbatim>\<open>Send\<close> with the single-target message, logs an error when
  the call returned one, and does nothing else visible: the trace gains no call of
  \<^verbatim>\<open>SendEachForMulticast\<close>.
\<close>

theorem single_target_takes_priority:
  assumes "\<not> panicked s" "mutex s = None" "d < length (threads s)" "threads s ! d = F82 p"
    and "Message (heap s ! p) = Some m" "MulticastMessage (heap s ! p) = Some mm"
  shows "\<exists>s'. run (monitorFunc_schedule d (heap s ! p) err) s = Some s' \<and>
      trace s' = trace s @ [(clock s, Log_Sending p), (clock s, Call_Send p m)] @
        (if err then [(clock s, Log_Error_sending p)] else []) \<and>
      (\<forall>t mm'. (t, Call_SendEachForMulticast p mm') \<in> set (trace s') \<longrightarrow>
         (t, Call_SendEachForMulticast p mm') \<in> set (trace s)) \<and>
      threads s' = (threads s)[d := F80]"
  using assms by (simp add: monitorFunc_run monitorFunc_events_def)

theorem single_target_takes_priority_witness:
  "run (handoff_schedule both_payloads ''c'') startSchedulingNotifications =
     Some (handed_state both_payloads ''c'') \<and>
   \<not> panicked (handed_state both_payloads ''c'') \<and>
   mutex (handed_state both_payloads ''c'') = None \<and>
   threads (handed_state both_payloads ''c'') ! 0 = F82 0 \<and>
   Message (heap (handed_state both_payloads ''c'') ! 0) = Some \<lparr>Token = ''t''\<rparr> \<and>
   MulticastMessage (heap (handed_state both_payloads ''c'') ! 0) = Some \<lparr>Tokens = [''u'', ''v'']\<rparr> \<and>
   (\<exists>s'. run (monitorFunc_schedule 0 (heap (handed_state both_payloads ''c'') ! 0) False)
           (handed_state both_payloads ''c'') = Some s' \<and>
         trace s' = [(0, Log_Sending 0), (0, Call_Send 0 \<lparr>Token = ''t''\<rparr>)])"
proof -
  have r: "run (handoff_schedule both_payloads ''c'') startSchedulingNotifications =
      Some (handed_state both_payloads ''c'')"
    by (rule handoff_run) (simp add: both_payloads_def literal_def)
  have h: "\<not> panicked (handed_state both_payloads ''c'')"
    "mutex (handed_state both_payloads ''c'') = None"
    "0 < length (threads (handed_state both_payloads ''c''))"
    "threads (handed_state both_payloads ''c'') ! 0 = F82 0"
    "Message (heap (handed_state both_payloads ''c'') ! 0) = Some \<lparr>Token = ''t''\<rparr>"
    "MulticastMessage (heap (handed_state both_payloads ''c'') ! 0) =
       Some \<lparr>Tokens = [''u'', ''v'']\<rparr>"
    by (simp_all add: handed_state_def both_payloads_def literal_def)
  from single_target_takes_priority [OF h, of False]
  obtain s' where
    "run (monitorFunc_schedule 0 (heap (handed_state both_payloads ''c'') ! 0) False)
       (handed_state both_payloads ''c'') = Some s'"
    "trace s' = trace (handed_state both_payloads ''c'') @
       [(clock (handed_state both_payloads ''c''), Log_Sending 0),
        (clock (handed_state both_payloads ''c''), Call_Send 0 \<lparr>Token = ''t''\<rparr>)] @
       (if False then [(clock (handed_state both_payloads ''c''), Log_Error_sending 0)] else [])"
    by blast
  then have "run (monitorFunc_schedule 0 (heap (handed_state both_payloads ''c'') ! 0) False)
           (handed_state both_payloads ''c'') = Some s' \<and>
         trace s' = [(0, Log_Sending 0), (0, Call_Send 0 \<lparr>Token = ''t''\<rparr>)]"
    by (simp add: handed_state_def)
  with r h show ?thesis by blast
qed

text \<open>
  C10. \<^verbatim>\<open>AddNotification\<close> called with a pointer \<open>p\<close> to a record, with the mutex free
  and no other goroutine moving: after line 40, before anything is inserted, the
  record's \<^verbatim>\<open>Id\<close> is the generator's identifier whatever it was; at the return the heap
  has the same records at the same places except for that field, and the registry maps
  the identifier to \<open>p\<close> itself; the waiter has the same pointer, so that when the
  notification is due and the waiter runs, it is the caller's record at \<open>p\<close> whose
  \<^verbatim>\<open>CompletionStatus\<close> becomes true.
\<close>

theorem AddNotification_overwrites_Id_and_stores_the_pointer:
  assumes "\<not> panicked s" "mutex s = None" "p < length (heap s)"
  shows "\<exists>sm s'.
      run [CallAdd (Some p), Nanoid (length (threads s)) ident err, Exec (length (threads s))] s =
        Some sm \<and>
      Id' (heap sm ! p) = ident \<and> Notifs sm = Notifs s \<and>
      run (AddNotification_schedule (length (threads s)) p ident err) s = Some s' \<and>
      heap s' = (heap s)[p := (heap s ! p)\<lparr>Id' := ident\<rparr>] \<and>
      Id' (heap s' ! p) = ident \<and> length (heap s') = length (heap s) \<and>
      Notifs s' ident = Some p \<and>
      threads s' = threads s @ [Returned, M50 p] \<and>
      (ScheduledTime (heap s ! p) \<le> clock s \<and>
       notificationSem s < maxConcurrentNotifications \<and>
       d < length (threads s) \<and> threads s ! d = F80 \<longrightarrow>
         (\<exists>s''. run (monitorAndSend_schedule (Suc (length (threads s))) d) s' = Some s'' \<and>
               Notifs s'' ident = Some p \<and>
               heap s'' = (heap s)[p := (heap s ! p)\<lparr>Id' := ident, CompletionStatus := True\<rparr>] \<and>
               CompletionStatus (heap s'' ! p)))"
proof -
  let ?sm = "s\<lparr>heap := (heap s)[p := (heap s ! p)\<lparr>Id' := ident\<rparr>],
               threads := threads s @ [A42 p]\<rparr>"
  let ?s' = "s\<lparr>heap := (heap s)[p := (heap s ! p)\<lparr>Id' := ident\<rparr>],
               Notifs := (Notifs s)(ident \<mapsto> p), mutex := None,
               threads := threads s @ [Returned, M50 p]\<rparr>"
  have 0: "run [CallAdd (Some p), Nanoid (length (threads s)) ident err,
      Exec (length (threads s))] s = Some ?sm"
    using assms by (simp add: step_def goto_def)
  have 1: "run (AddNotification_schedule (length (threads s)) p ident err) s = Some ?s'"
    using assms by (rule AddNotification_run)
  have 2: "\<exists>s''. run (monitorAndSend_schedule (Suc (length (threads s))) d) ?s' = Some s'' \<and>
               Notifs s'' ident = Some p \<and>
               heap s'' = (heap s)[p := (heap s ! p)\<lparr>Id' := ident, CompletionStatus := True\<rparr>] \<and>
               CompletionStatus (heap s'' ! p)"
    if "ScheduledTime (heap s ! p) \<le> clock s"
      "notificationSem s < maxConcurrentNotifications" "d < length (threads s)"
      "threads s ! d = F80"
  proof -
    have "run (monitorAndSend_schedule (Suc (length (threads s))) d) ?s' =
      Some (?s'\<lparr>heap := (heap ?s')[p := (heap ?s' ! p)\<lparr>CompletionStatus := True\<rparr>],
             mutex := None,
             threads := (threads ?s')[Suc (length (threads s)) := Returned, d := F82 p],
             readings := readings ?s' @ [(p, clock ?s')]\<rparr>)"
      using assms that by (intro monitorAndSend_run) (simp_all add: nth_append)
    then show ?thesis using assms by simp
  qed
  show ?thesis
    apply (rule exI [of _ ?sm])
    apply (rule exI [of _ ?s'])
    using assms 2 apply (simp only: 0 1)
    apply simp
    done
qed

theorem AddNotification_overwrites_Id_and_stores_the_pointer_witness:
  "run [Alloc supplied] startSchedulingNotifications = Some supplied_state \<and>
   \<not> panicked supplied_state \<and> mutex supplied_state = None \<and>
   0 < length (heap supplied_state) \<and> Id' (heap supplied_state ! 0) = ''mine'' \<and>
   (\<exists>s'. run (AddNotification_schedule 1 0 ''fresh'' False) supplied_state = Some s' \<and>
         Id' (heap s' ! 0) = ''fresh'' \<and> Notifs s' ''fresh'' = Some 0 \<and>
         length (heap s') = 1 \<and>
         (\<exists>s''. run (monitorAndSend_schedule 2 0) s' = Some s'' \<and>
                CompletionStatus (heap s'' ! 0)))"
proof -
  have r: "run [Alloc supplied] startSchedulingNotifications = Some supplied_state"
    by (simp add: supplied_state_def eval_simps)
  have h: "\<not> panicked supplied_state" "mutex supplied_state = None"
    "0 < length (heap supplied_state)"
    by (simp_all add: supplied_state_def startSchedulingNotifications_def)
  have i: "Id' (heap supplied_state ! 0) = ''mine''"
    by (simp add: supplied_state_def supplied_def)
  have l: "length (threads supplied_state) = 1" "length (heap supplied_state) = 1"
    by (simp_all add: supplied_state_def startSchedulingNotifications_def)
  have d: "ScheduledTime (heap supplied_state ! 0) \<le> clock supplied_state \<and>
       notificationSem supplied_state < maxConcurrentNotifications \<and>
       0 < length (threads supplied_state) \<and> threads supplied_state ! 0 = F80"
    by (simp add: supplied_state_def supplied_def eval_simps)
  from AddNotification_overwrites_Id_and_stores_the_pointer [OF h, of "''fresh''" False 0] d
  obtain s' s'' where
    "run (AddNotification_schedule (length (threads supplied_state)) 0 ''fresh'' False)
       supplied_state = Some s'"
    "Id' (heap s' ! 0) = ''fresh''" "length (heap s') = length (heap supplied_state)"
    "Notifs s' ''fresh'' = Some 0"
    "run (monitorAndSend_schedule (Suc (length (threads supplied_state))) 0) s' = Some s''"
    "CompletionStatus (heap s'' ! 0)"
    by blast
  then have "run (AddNotification_schedule 1 0 ''fresh'' False) supplied_state = Some s' \<and>
         Id' (heap s' ! 0) = ''fresh'' \<and> Notifs s' ''fresh'' = Some 0 \<and>
         length (heap s') = 1 \<and>
         (\<exists>s''. run (monitorAndSend_schedule 2 0) s' = Some s'' \<and>
                CompletionStatus (heap s'' ! 0))"
    by (auto simp: l numeral_2_eq_2)
  with r h i show ?thesis by blast
qed

end
